theory Spec2Isabelle
  imports Main "HOL-Library.Word"
begin

unbundle bit_operations_syntax

section \<open>Data model\<close>

text \<open>
  Bytes are \<open>uint8_t\<close>, cipher words are \<open>uint32_t\<close>: both are machine words, so
  \<open>+\<close> wraps around.  A C array (a buffer behind a pointer) is a list; the byte at
  \<open>p + off\<close> is the element \<open>off\<close> of the list behind \<open>p\<close>.  A \<open>size_t\<close> length
  or offset is a \<open>nat\<close>: the code only ever decreases \<open>len\<close> and keeps every offset
  below the length it was given.  C leaves reads and writes outside a buffer undefined, so
  the theorems below carry the sizes of the buffers as hypotheses.  The input and the output
  buffer are two lists; a call in place, with \<open>out\<close> and \<open>in\<close> the same memory, is
  not modelled.
\<close>

type_synonym u8 = "8 word"
type_synonym u32 = "32 word"

text \<open>The sixteen local variables \<open>x0 \<dots> x15\<close> of the block function.\<close>

type_synonym 'a locals16 =
  "'a \<times> 'a \<times> 'a \<times> 'a \<times> 'a \<times> 'a \<times> 'a \<times> 'a \<times> 'a \<times> 'a \<times> 'a \<times> 'a \<times> 'a \<times> 'a \<times> 'a \<times> 'a"

text \<open>
  The counted loop \<open>for (i = i0; i < n; i++) s = body i s\<close>, with \<open>s\<close> the variables
  the body assigns.
\<close>

function for_loop :: "nat \<Rightarrow> nat \<Rightarrow> (nat \<Rightarrow> 's \<Rightarrow> 's) \<Rightarrow> 's \<Rightarrow> 's" where
  "for_loop i n body s = (if i < n then for_loop (i + 1) n body (body i s) else s)"
  by pat_completeness auto
termination
  by (relation "measure (\<lambda>(i, n, body, s). n - i)") auto

declare for_loop.simps [simp del]

section \<open>chacha20.c\<close>

definition ROTL32 :: "u32 \<Rightarrow> nat \<Rightarrow> u32" where
  "ROTL32 x r = push_bit r x OR drop_bit (32 - r) x"

definition QUARTERROUND :: "u32 \<times> u32 \<times> u32 \<times> u32 \<Rightarrow> u32 \<times> u32 \<times> u32 \<times> u32" where
  "QUARTERROUND = (\<lambda>(a, b, c, d).
     let a = a + b;
         d = d XOR a;
         d = ROTL32 d 16;
         c = c + d;
         b = b XOR c;
         b = ROTL32 b 12;
         a = a + b;
         d = d XOR a;
         d = ROTL32 d 8;
         c = c + d;
         b = b XOR c;
         b = ROTL32 b 7
     in (a, b, c, d))"

definition load32_le :: "u8 list \<Rightarrow> nat \<Rightarrow> u32" where
  "load32_le p off =
     ucast (p ! off)
     OR push_bit 8 (ucast (p ! (off + 1)))
     OR push_bit 16 (ucast (p ! (off + 2)))
     OR push_bit 24 (ucast (p ! (off + 3)))"

definition store32_le :: "u8 list \<Rightarrow> nat \<Rightarrow> u32 \<Rightarrow> u8 list" where
  "store32_le p off v =
     (let p = p[off := ucast v];
          p = p[off + 1 := ucast (drop_bit 8 v)];
          p = p[off + 2 := ucast (drop_bit 16 v)];
          p = p[off + 3 := ucast (drop_bit 24 v)]
      in p)"

text \<open>The body of the round loop of \<open>chacha20_block\<close>: one double round.\<close>

definition block_rounds_body :: "u32 locals16 \<Rightarrow> u32 locals16" where
  "block_rounds_body = (\<lambda>(x0, x1, x2, x3, x4, x5, x6, x7, x8, x9, x10, x11, x12, x13, x14, x15).
     let (x0, x4, x8, x12) = QUARTERROUND (x0, x4, x8, x12);
         (x1, x5, x9, x13) = QUARTERROUND (x1, x5, x9, x13);
         (x2, x6, x10, x14) = QUARTERROUND (x2, x6, x10, x14);
         (x3, x7, x11, x15) = QUARTERROUND (x3, x7, x11, x15);
         (x0, x5, x10, x15) = QUARTERROUND (x0, x5, x10, x15);
         (x1, x6, x11, x12) = QUARTERROUND (x1, x6, x11, x12);
         (x2, x7, x8, x13) = QUARTERROUND (x2, x7, x8, x13);
         (x3, x4, x9, x14) = QUARTERROUND (x3, x4, x9, x14)
     in (x0, x1, x2, x3, x4, x5, x6, x7, x8, x9, x10, x11, x12, x13, x14, x15))"

text \<open>
  \<open>chacha20_block out input\<close> returns the buffer \<open>out\<close> after the call; \<open>input\<close> is
  a \<open>const\<close> array and is only read.
\<close>

definition chacha20_block :: "u8 list \<Rightarrow> u32 list \<Rightarrow> u8 list" where
  "chacha20_block out input =
     (let x = (input ! 0, input ! 1, input ! 2, input ! 3,
               input ! 4, input ! 5, input ! 6, input ! 7,
               input ! 8, input ! 9, input ! 10, input ! 11,
               input ! 12, input ! 13, input ! 14, input ! 15);
          (x0, x1, x2, x3, x4, x5, x6, x7, x8, x9, x10, x11, x12, x13, x14, x15) =
            for_loop 0 10 (\<lambda>i. block_rounds_body) x;
          out = store32_le out 0 (x0 + input ! 0);
          out = store32_le out 4 (x1 + input ! 1);
          out = store32_le out 8 (x2 + input ! 2);
          out = store32_le out 12 (x3 + input ! 3);
          out = store32_le out 16 (x4 + input ! 4);
          out = store32_le out 20 (x5 + input ! 5);
          out = store32_le out 24 (x6 + input ! 6);
          out = store32_le out 28 (x7 + input ! 7);
          out = store32_le out 32 (x8 + input ! 8);
          out = store32_le out 36 (x9 + input ! 9);
          out = store32_le out 40 (x10 + input ! 10);
          out = store32_le out 44 (x11 + input ! 11);
          out = store32_le out 48 (x12 + input ! 12);
          out = store32_le out 52 (x13 + input ! 13);
          out = store32_le out 56 (x14 + input ! 14);
          out = store32_le out 60 (x15 + input ! 15)
      in out)"

text \<open>
  A local array that the code declares without initialising it holds indeterminate bytes;
  the model starts it at zero, and \<open>chacha20_block_bytes\<close> below shows that no result
  depends on that choice, since the block function writes all 64 bytes.
\<close>

definition uninit_bytes :: "nat \<Rightarrow> u8 list" where
  "uninit_bytes n = replicate n 0"

definition uninit_words :: "nat \<Rightarrow> u32 list" where
  "uninit_words n = replicate n 0"

text \<open>
  Lines 108 to 125 of \<open>chacha20_xor\<close>: the state is built in place.  The pointer
  \<open>constants\<close> of line 103 is never used and is left out.
\<close>

definition chacha20_xor_state :: "u8 list \<Rightarrow> u8 list \<Rightarrow> u32 \<Rightarrow> u32 list" where
  "chacha20_xor_state key nonce counter =
     (let state = uninit_words 16;
          state = state[0 := load32_le (map of_char ''expa'') 0];
          state = state[1 := load32_le (map of_char ''nd 3'') 0];
          state = state[2 := load32_le (map of_char ''2-by'') 0];
          state = state[3 := load32_le (map of_char ''te k'') 0];
          state = for_loop 0 8 (\<lambda>i state. state[4 + i := load32_le key (4 * i)]) state;
          state = state[12 := counter];
          state = state[13 := load32_le nonce 0];
          state = state[14 := load32_le nonce 4];
          state = state[15 := load32_le nonce 8]
      in state)"

text \<open>
  The variables of the \<open>while\<close> loop of \<open>chacha20_xor\<close>; the loop returns them as they
  are when it exits.
\<close>

record xor_vars =
  v_out :: "u8 list"
  v_len :: nat
  v_offset :: nat
  v_state :: "u32 list"
  v_block :: "u8 list"

function chacha20_xor_loop :: "u8 list \<Rightarrow> xor_vars \<Rightarrow> xor_vars" where
  "chacha20_xor_loop inp v =
     (if v_len v > 0 then
        let block = chacha20_block (v_block v) (v_state v);
            chunk = (if v_len v < 64 then v_len v else 64);
            out = for_loop 0 chunk
                    (\<lambda>i out. out[v_offset v + i := inp ! (v_offset v + i) XOR block ! i])
                    (v_out v)
        in chacha20_xor_loop inp
             \<lparr>v_out = out, v_len = v_len v - chunk, v_offset = v_offset v + chunk,
              v_state = (v_state v)[12 := v_state v ! 12 + 1], v_block = block\<rparr>
      else v)"
  by pat_completeness auto
termination
  by (relation "measure (\<lambda>(inp, v). v_len v)") (auto split: if_splits)

declare chacha20_xor_loop.simps [simp del]

text \<open>
  \<open>chacha20_xor_run\<close> is the whole body of \<open>chacha20_xor\<close>: it gives the local
  variables as they are when the function returns.  \<open>chacha20_xor out inp len key nonce
  counter\<close> is the output buffer after the call.
\<close>

definition chacha20_xor_run ::
  "u8 list \<Rightarrow> u8 list \<Rightarrow> nat \<Rightarrow> u8 list \<Rightarrow> u8 list \<Rightarrow> u32 \<Rightarrow> xor_vars" where
  "chacha20_xor_run out inp len key nonce counter =
     chacha20_xor_loop inp
       \<lparr>v_out = out, v_len = len, v_offset = 0,
        v_state = chacha20_xor_state key nonce counter, v_block = uninit_bytes 64\<rparr>"

definition chacha20_xor :: "u8 list \<Rightarrow> u8 list \<Rightarrow> nat \<Rightarrow> u8 list \<Rightarrow> u8 list \<Rightarrow> u32 \<Rightarrow> u8 list" where
  "chacha20_xor out inp len key nonce counter =
     v_out (chacha20_xor_run out inp len key nonce counter)"

section \<open>chacha20_simd.c\<close>

text \<open>
  The file has its own \<open>static\<close> copies of the helpers and of the block function; they
  are embedded here from its text, under the source's names with the suffix \<open>_simd\<close>.
\<close>

definition ROTL32_simd :: "u32 \<Rightarrow> nat \<Rightarrow> u32" where
  "ROTL32_simd x r = push_bit r x OR drop_bit (32 - r) x"

definition load32_le_simd :: "u8 list \<Rightarrow> nat \<Rightarrow> u32" where
  "load32_le_simd p off =
     ucast (p ! off)
     OR push_bit 8 (ucast (p ! (off + 1)))
     OR push_bit 16 (ucast (p ! (off + 2)))
     OR push_bit 24 (ucast (p ! (off + 3)))"

definition store32_le_simd :: "u8 list \<Rightarrow> nat \<Rightarrow> u32 \<Rightarrow> u8 list" where
  "store32_le_simd p off v =
     (let p = p[off := ucast v];
          p = p[off + 1 := ucast (drop_bit 8 v)];
          p = p[off + 2 := ucast (drop_bit 16 v)];
          p = p[off + 3 := ucast (drop_bit 24 v)]
      in p)"

definition QUARTERROUND_simd :: "u32 \<times> u32 \<times> u32 \<times> u32 \<Rightarrow> u32 \<times> u32 \<times> u32 \<times> u32" where
  "QUARTERROUND_simd = (\<lambda>(a, b, c, d).
     let a = a + b;
         d = d XOR a;
         d = ROTL32_simd d 16;
         c = c + d;
         b = b XOR c;
         b = ROTL32_simd b 12;
         a = a + b;
         d = d XOR a;
         d = ROTL32_simd d 8;
         c = c + d;
         b = b XOR c;
         b = ROTL32_simd b 7
     in (a, b, c, d))"

definition block_rounds_body_simd :: "u32 locals16 \<Rightarrow> u32 locals16" where
  "block_rounds_body_simd = (\<lambda>(x0, x1, x2, x3, x4, x5, x6, x7, x8, x9, x10, x11, x12, x13, x14, x15).
     let (x0, x4, x8, x12) = QUARTERROUND_simd (x0, x4, x8, x12);
         (x1, x5, x9, x13) = QUARTERROUND_simd (x1, x5, x9, x13);
         (x2, x6, x10, x14) = QUARTERROUND_simd (x2, x6, x10, x14);
         (x3, x7, x11, x15) = QUARTERROUND_simd (x3, x7, x11, x15);
         (x0, x5, x10, x15) = QUARTERROUND_simd (x0, x5, x10, x15);
         (x1, x6, x11, x12) = QUARTERROUND_simd (x1, x6, x11, x12);
         (x2, x7, x8, x13) = QUARTERROUND_simd (x2, x7, x8, x13);
         (x3, x4, x9, x14) = QUARTERROUND_simd (x3, x4, x9, x14)
     in (x0, x1, x2, x3, x4, x5, x6, x7, x8, x9, x10, x11, x12, x13, x14, x15))"

definition chacha20_block_simd :: "u8 list \<Rightarrow> u32 list \<Rightarrow> u8 list" where
  "chacha20_block_simd out input =
     (let x = (input ! 0, input ! 1, input ! 2, input ! 3,
               input ! 4, input ! 5, input ! 6, input ! 7,
               input ! 8, input ! 9, input ! 10, input ! 11,
               input ! 12, input ! 13, input ! 14, input ! 15);
          (x0, x1, x2, x3, x4, x5, x6, x7, x8, x9, x10, x11, x12, x13, x14, x15) =
            for_loop 0 10 (\<lambda>i. block_rounds_body_simd) x;
          out = store32_le_simd out 0 (x0 + input ! 0);
          out = store32_le_simd out 4 (x1 + input ! 1);
          out = store32_le_simd out 8 (x2 + input ! 2);
          out = store32_le_simd out 12 (x3 + input ! 3);
          out = store32_le_simd out 16 (x4 + input ! 4);
          out = store32_le_simd out 20 (x5 + input ! 5);
          out = store32_le_simd out 24 (x6 + input ! 6);
          out = store32_le_simd out 28 (x7 + input ! 7);
          out = store32_le_simd out 32 (x8 + input ! 8);
          out = store32_le_simd out 36 (x9 + input ! 9);
          out = store32_le_simd out 40 (x10 + input ! 10);
          out = store32_le_simd out 44 (x11 + input ! 11);
          out = store32_le_simd out 48 (x12 + input ! 12);
          out = store32_le_simd out 52 (x13 + input ! 13);
          out = store32_le_simd out 56 (x14 + input ! 14);
          out = store32_le_simd out 60 (x15 + input ! 15)
      in out)"

text \<open>\<open>chacha20_init_state state key nonce counter\<close> returns the array \<open>state\<close> after the call.\<close>

definition chacha20_init_state :: "u32 list \<Rightarrow> u8 list \<Rightarrow> u8 list \<Rightarrow> u32 \<Rightarrow> u32 list" where
  "chacha20_init_state state key nonce counter =
     (let state = state[0 := 0x61707865];
          state = state[1 := 0x3320646e];
          state = state[2 := 0x79622d32];
          state = state[3 := 0x6b206574];
          state = for_loop 0 8 (\<lambda>i state. state[4 + i := load32_le_simd key (4 * i)]) state;
          state = state[12 := counter];
          state = state[13 := load32_le_simd nonce 0];
          state = state[14 := load32_le_simd nonce 4];
          state = state[15 := load32_le_simd nonce 8]
      in state)"

text \<open>
  The variables of the two \<open>while\<close> loops of \<open>chacha20_xor_interleaved4\<close>.  The
  addition \<open>counter + k\<close> of a \<open>uint32_t\<close> and an \<open>int\<close> is an addition of
  \<open>uint32_t\<close>.
\<close>

record il4_vars =
  i_out :: "u8 list"
  i_len :: nat
  i_off :: nat
  i_counter :: u32
  i_block :: "u8 list list"

function interleaved4_main_loop ::
  "u8 list \<Rightarrow> u8 list \<Rightarrow> u8 list \<Rightarrow> il4_vars \<Rightarrow> il4_vars" where
  "interleaved4_main_loop inp key nonce v =
     (if i_len v \<ge> 256 then
        let block = for_loop 0 4
                      (\<lambda>k block.
                         let st = uninit_words 16;
                             st = chacha20_init_state st key nonce (i_counter v + of_nat k)
                         in block[k := chacha20_block_simd (block ! k) st])
                      (i_block v);
            out = for_loop 0 4
                    (\<lambda>k. for_loop 0 64
                       (\<lambda>i out. out[i_off v + k * 64 + i :=
                                      inp ! (i_off v + k * 64 + i) XOR block ! k ! i]))
                    (i_out v)
        in interleaved4_main_loop inp key nonce
             \<lparr>i_out = out, i_len = i_len v - 256, i_off = i_off v + 256,
              i_counter = i_counter v + 4, i_block = block\<rparr>
      else v)"
  by pat_completeness auto
termination
  by (relation "measure (\<lambda>(inp, key, nonce, v). i_len v)") auto

declare interleaved4_main_loop.simps [simp del]

function interleaved4_tail_loop ::
  "u8 list \<Rightarrow> u8 list \<Rightarrow> u8 list \<Rightarrow> il4_vars \<Rightarrow> il4_vars" where
  "interleaved4_tail_loop inp key nonce v =
     (if i_len v > 0 then
        let st = uninit_words 16;
            buf = uninit_bytes 64;
            c = (if i_len v < 64 then i_len v else 64);
            st = chacha20_init_state st key nonce (i_counter v);
            buf = chacha20_block_simd buf st;
            out = for_loop 0 c
                    (\<lambda>i out. out[i_off v + i := inp ! (i_off v + i) XOR buf ! i])
                    (i_out v)
        in interleaved4_tail_loop inp key nonce
             \<lparr>i_out = out, i_len = i_len v - c, i_off = i_off v + c,
              i_counter = i_counter v + 1, i_block = i_block v\<rparr>
      else v)"
  by pat_completeness auto
termination
  by (relation "measure (\<lambda>(inp, key, nonce, v). i_len v)") (auto split: if_splits)

declare interleaved4_tail_loop.simps [simp del]

definition chacha20_xor_interleaved4 ::
  "u8 list \<Rightarrow> u8 list \<Rightarrow> nat \<Rightarrow> u8 list \<Rightarrow> u8 list \<Rightarrow> u32 \<Rightarrow> u8 list" where
  "chacha20_xor_interleaved4 out inp len key nonce counter =
     (let v = \<lparr>i_out = out, i_len = len, i_off = 0, i_counter = counter,
               i_block = replicate 4 (uninit_bytes 64)\<rparr>;
          v = interleaved4_main_loop inp key nonce v;
          v = interleaved4_tail_loop inp key nonce v
      in i_out v)"

subsection \<open>The NEON path\<close>

text \<open>
  Modelled from the spec: the NEON type \<open>uint32x4_t\<close> and the intrinsics of
  \<open>arm_neon.h\<close> are not among the sources.  The spec describes a lane vector as a 4-wide
  value and the operations as vector add, xor and fixed-amount shifts acting on all 4
  lanes at once, a broadcast of one value across all 4 lanes, and the extraction of lane
  0..3; that is their meaning here.
\<close>

datatype uint32x4_t = Vec4 u32 u32 u32 u32

fun vdupq_n_u32 :: "u32 \<Rightarrow> uint32x4_t" where
  "vdupq_n_u32 x = Vec4 x x x x"

fun vaddq_u32 :: "uint32x4_t \<Rightarrow> uint32x4_t \<Rightarrow> uint32x4_t" where
  "vaddq_u32 (Vec4 a0 a1 a2 a3) (Vec4 b0 b1 b2 b3) = Vec4 (a0 + b0) (a1 + b1) (a2 + b2) (a3 + b3)"

fun veorq_u32 :: "uint32x4_t \<Rightarrow> uint32x4_t \<Rightarrow> uint32x4_t" where
  "veorq_u32 (Vec4 a0 a1 a2 a3) (Vec4 b0 b1 b2 b3) =
     Vec4 (a0 XOR b0) (a1 XOR b1) (a2 XOR b2) (a3 XOR b3)"

fun vorrq_u32 :: "uint32x4_t \<Rightarrow> uint32x4_t \<Rightarrow> uint32x4_t" where
  "vorrq_u32 (Vec4 a0 a1 a2 a3) (Vec4 b0 b1 b2 b3) =
     Vec4 (a0 OR b0) (a1 OR b1) (a2 OR b2) (a3 OR b3)"

fun vshlq_n_u32 :: "uint32x4_t \<Rightarrow> nat \<Rightarrow> uint32x4_t" where
  "vshlq_n_u32 (Vec4 a0 a1 a2 a3) n =
     Vec4 (push_bit n a0) (push_bit n a1) (push_bit n a2) (push_bit n a3)"

fun vshrq_n_u32 :: "uint32x4_t \<Rightarrow> nat \<Rightarrow> uint32x4_t" where
  "vshrq_n_u32 (Vec4 a0 a1 a2 a3) n =
     Vec4 (drop_bit n a0) (drop_bit n a1) (drop_bit n a2) (drop_bit n a3)"

fun vgetq_lane_u32 :: "uint32x4_t \<Rightarrow> nat \<Rightarrow> u32" where
  "vgetq_lane_u32 (Vec4 a0 a1 a2 a3) i =
     (if i = 0 then a0 else if i = 1 then a1 else if i = 2 then a2 else a3)"

definition ROTL16 :: "uint32x4_t \<Rightarrow> uint32x4_t" where
  "ROTL16 v = vorrq_u32 (vshlq_n_u32 v 16) (vshrq_n_u32 v 16)"

definition ROTL12 :: "uint32x4_t \<Rightarrow> uint32x4_t" where
  "ROTL12 v = vorrq_u32 (vshlq_n_u32 v 12) (vshrq_n_u32 v 20)"

definition ROTL8 :: "uint32x4_t \<Rightarrow> uint32x4_t" where
  "ROTL8 v = vorrq_u32 (vshlq_n_u32 v 8) (vshrq_n_u32 v 24)"

definition ROTL7 :: "uint32x4_t \<Rightarrow> uint32x4_t" where
  "ROTL7 v = vorrq_u32 (vshlq_n_u32 v 7) (vshrq_n_u32 v 25)"

definition NEON_QR ::
  "uint32x4_t \<times> uint32x4_t \<times> uint32x4_t \<times> uint32x4_t \<Rightarrow>
   uint32x4_t \<times> uint32x4_t \<times> uint32x4_t \<times> uint32x4_t" where
  "NEON_QR = (\<lambda>(a, b, c, d).
     let a = vaddq_u32 a b;
         d = veorq_u32 d a;
         d = ROTL16 d;
         c = vaddq_u32 c d;
         b = veorq_u32 b c;
         b = ROTL12 b;
         a = vaddq_u32 a b;
         d = veorq_u32 d a;
         d = ROTL8 d;
         c = vaddq_u32 c d;
         b = veorq_u32 b c;
         b = ROTL7 b
     in (a, b, c, d))"

text \<open>The body of the round loop of \<open>chacha20_xor_neon4\<close>.\<close>

definition neon_rounds_body :: "uint32x4_t locals16 \<Rightarrow> uint32x4_t locals16" where
  "neon_rounds_body = (\<lambda>(x0, x1, x2, x3, x4, x5, x6, x7, x8, x9, x10, x11, x12, x13, x14, x15).
     let (x0, x4, x8, x12) = NEON_QR (x0, x4, x8, x12);
         (x1, x5, x9, x13) = NEON_QR (x1, x5, x9, x13);
         (x2, x6, x10, x14) = NEON_QR (x2, x6, x10, x14);
         (x3, x7, x11, x15) = NEON_QR (x3, x7, x11, x15);
         (x0, x5, x10, x15) = NEON_QR (x0, x5, x10, x15);
         (x1, x6, x11, x12) = NEON_QR (x1, x6, x11, x12);
         (x2, x7, x8, x13) = NEON_QR (x2, x7, x8, x13);
         (x3, x4, x9, x14) = NEON_QR (x3, x4, x9, x14)
     in (x0, x1, x2, x3, x4, x5, x6, x7, x8, x9, x10, x11, x12, x13, x14, x15))"

text \<open>
  Lines 273 to 323 of \<open>chacha20_xor_neon4\<close>: the sixteen lane vectors \<open>xs\<close> of one
  iteration, after the rounds and the feed-forward.
\<close>

definition neon4_lane_vectors :: "u8 list \<Rightarrow> u8 list \<Rightarrow> u32 \<Rightarrow> uint32x4_t list" where
  "neon4_lane_vectors key nonce counter =
     (let in0 = vdupq_n_u32 0x61707865;
          in1 = vdupq_n_u32 0x3320646e;
          in2 = vdupq_n_u32 0x79622d32;
          in3 = vdupq_n_u32 0x6b206574;
          in4 = vdupq_n_u32 (load32_le_simd key 0);
          in5 = vdupq_n_u32 (load32_le_simd key 4);
          in6 = vdupq_n_u32 (load32_le_simd key 8);
          in7 = vdupq_n_u32 (load32_le_simd key 12);
          in8 = vdupq_n_u32 (load32_le_simd key 16);
          in9 = vdupq_n_u32 (load32_le_simd key 20);
          in10 = vdupq_n_u32 (load32_le_simd key 24);
          in11 = vdupq_n_u32 (load32_le_simd key 28);
          in12 = Vec4 counter (counter + 1) (counter + 2) (counter + 3);
          in13 = vdupq_n_u32 (load32_le_simd nonce 0);
          in14 = vdupq_n_u32 (load32_le_simd nonce 4);
          in15 = vdupq_n_u32 (load32_le_simd nonce 8);
          x = (in0, in1, in2, in3, in4, in5, in6, in7,
               in8, in9, in10, in11, in12, in13, in14, in15);
          (x0, x1, x2, x3, x4, x5, x6, x7, x8, x9, x10, x11, x12, x13, x14, x15) =
            for_loop 0 10 (\<lambda>i. neon_rounds_body) x;
          x0 = vaddq_u32 x0 in0;
          x1 = vaddq_u32 x1 in1;
          x2 = vaddq_u32 x2 in2;
          x3 = vaddq_u32 x3 in3;
          x4 = vaddq_u32 x4 in4;
          x5 = vaddq_u32 x5 in5;
          x6 = vaddq_u32 x6 in6;
          x7 = vaddq_u32 x7 in7;
          x8 = vaddq_u32 x8 in8;
          x9 = vaddq_u32 x9 in9;
          x10 = vaddq_u32 x10 in10;
          x11 = vaddq_u32 x11 in11;
          x12 = vaddq_u32 x12 in12;
          x13 = vaddq_u32 x13 in13;
          x14 = vaddq_u32 x14 in14;
          x15 = vaddq_u32 x15 in15
      in [x0, x1, x2, x3, x4, x5, x6, x7, x8, x9, x10, x11, x12, x13, x14, x15])"

text \<open>
  Lines 273 to 330: the four keystream blocks \<open>ks\<close> of one iteration, gathered from the
  lanes.
\<close>

definition neon4_keystream :: "u8 list list \<Rightarrow> u8 list \<Rightarrow> u8 list \<Rightarrow> u32 \<Rightarrow> u8 list list" where
  "neon4_keystream ks key nonce counter =
     (let xs = neon4_lane_vectors key nonce counter
      in for_loop 0 16
           (\<lambda>w ks.
              let ks = ks[0 := store32_le_simd (ks ! 0) (4 * w) (vgetq_lane_u32 (xs ! w) 0)];
                  ks = ks[1 := store32_le_simd (ks ! 1) (4 * w) (vgetq_lane_u32 (xs ! w) 1)];
                  ks = ks[2 := store32_le_simd (ks ! 2) (4 * w) (vgetq_lane_u32 (xs ! w) 2)];
                  ks = ks[3 := store32_le_simd (ks ! 3) (4 * w) (vgetq_lane_u32 (xs ! w) 3)]
              in ks)
           ks)"

record neon_vars =
  n_out :: "u8 list"
  n_len :: nat
  n_off :: nat
  n_counter :: u32
  n_ks :: "u8 list list"

function neon4_loop :: "u8 list \<Rightarrow> u8 list \<Rightarrow> u8 list \<Rightarrow> neon_vars \<Rightarrow> neon_vars" where
  "neon4_loop inp key nonce v =
     (if n_len v \<ge> 256 then
        let ks = neon4_keystream (n_ks v) key nonce (n_counter v);
            out = for_loop 0 4
                    (\<lambda>k. for_loop 0 64
                       (\<lambda>i out. out[n_off v + k * 64 + i :=
                                      inp ! (n_off v + k * 64 + i) XOR ks ! k ! i]))
                    (n_out v)
        in neon4_loop inp key nonce
             \<lparr>n_out = out, n_len = n_len v - 256, n_off = n_off v + 256,
              n_counter = n_counter v + 4, n_ks = ks\<rparr>
      else v)"
  by pat_completeness auto
termination
  by (relation "measure (\<lambda>(inp, key, nonce, v). n_len v)") auto

declare neon4_loop.simps [simp del]

text \<open>
  The tail call passes \<open>out + off\<close> and \<open>in + off\<close>: the callee sees the buffers from
  \<open>off\<close> on, and the bytes before \<open>off\<close> stay as they are.
\<close>

definition chacha20_xor_neon4 ::
  "u8 list \<Rightarrow> u8 list \<Rightarrow> nat \<Rightarrow> u8 list \<Rightarrow> u8 list \<Rightarrow> u32 \<Rightarrow> u8 list" where
  "chacha20_xor_neon4 out inp len key nonce counter =
     (let v = \<lparr>n_out = out, n_len = len, n_off = 0, n_counter = counter,
               n_ks = replicate 4 (uninit_bytes 64)\<rparr>;
          v = neon4_loop inp key nonce v
      in if n_len v > 0 then
           take (n_off v) (n_out v) @
           chacha20_xor_interleaved4 (drop (n_off v) (n_out v)) (drop (n_off v) inp)
             (n_len v) key nonce (n_counter v)
         else n_out v)"

text \<open>
  \<open>HAVE_NEON\<close> is fixed when the file is compiled; it is a parameter of the dispatcher.
\<close>

definition chacha20_xor_best ::
  "bool \<Rightarrow> u8 list \<Rightarrow> u8 list \<Rightarrow> nat \<Rightarrow> u8 list \<Rightarrow> u8 list \<Rightarrow> u32 \<Rightarrow> u8 list" where
  "chacha20_xor_best HAVE_NEON out inp len key nonce counter =
     (if HAVE_NEON then chacha20_xor_neon4 out inp len key nonce counter
      else chacha20_xor_interleaved4 out inp len key nonce counter)"

section \<open>Specification\<close>

text \<open>
  The definitions of this section follow the words of the specification, not the code.
  The bytes \<open>b0 b1 b2 b3\<close> read as a little-endian 32-bit word are the number
  \<open>b0 + 256 b1 + 65536 b2 + 16777216 b3\<close>.
\<close>

definition le32 :: "u8 \<Rightarrow> u8 \<Rightarrow> u8 \<Rightarrow> u8 \<Rightarrow> u32" where
  "le32 b0 b1 b2 b3 = of_nat (unat b0 + 256 * unat b1 + 65536 * unat b2 + 16777216 * unat b3)"

definition le_words_spec :: "u8 list \<Rightarrow> u32 list" where
  "le_words_spec bs =
     map (\<lambda>i. le32 (bs ! (4 * i)) (bs ! (4 * i + 1)) (bs ! (4 * i + 2)) (bs ! (4 * i + 3)))
       [0..<length bs div 4]"

text \<open>
  The state: words 0 to 3 the constants, words 4 to 11 the key, word 12 the counter, words
  13 to 15 the nonce.
\<close>

definition state_spec :: "u8 list \<Rightarrow> u8 list \<Rightarrow> u32 \<Rightarrow> u32 list" where
  "state_spec key nonce counter =
     [0x61707865, 0x3320646e, 0x79622d32, 0x6b206574] @ le_words_spec key @ [counter] @
     le_words_spec nonce"

definition rotl :: "u32 \<Rightarrow> nat \<Rightarrow> u32" where
  "rotl x n = word_rotl n x"

definition quarter_round_spec :: "u32 \<times> u32 \<times> u32 \<times> u32 \<Rightarrow> u32 \<times> u32 \<times> u32 \<times> u32" where
  "quarter_round_spec = (\<lambda>(a, b, c, d).
     let a = a + b; d = d XOR a; d = rotl d 16;
         c = c + d; b = b XOR c; b = rotl b 12;
         a = a + b; d = d XOR a; d = rotl d 8;
         c = c + d; b = b XOR c; b = rotl b 7
     in (a, b, c, d))"

text \<open>The quarter round on the words \<open>(i, j, k, l)\<close> of a state.\<close>

definition quarter_round_at :: "nat \<times> nat \<times> nat \<times> nat \<Rightarrow> u32 list \<Rightarrow> u32 list" where
  "quarter_round_at = (\<lambda>(i, j, k, l) s.
     let (a, b, c, d) = quarter_round_spec (s ! i, s ! j, s ! k, s ! l)
     in s[i := a, j := b, k := c, l := d])"

definition columns :: "(nat \<times> nat \<times> nat \<times> nat) list" where
  "columns = [(0, 4, 8, 12), (1, 5, 9, 13), (2, 6, 10, 14), (3, 7, 11, 15)]"

definition diagonals :: "(nat \<times> nat \<times> nat \<times> nat) list" where
  "diagonals = [(0, 5, 10, 15), (1, 6, 11, 12), (2, 7, 8, 13), (3, 4, 9, 14)]"

definition double_round_spec :: "u32 list \<Rightarrow> u32 list" where
  "double_round_spec s = fold quarter_round_at diagonals (fold quarter_round_at columns s)"

text \<open>
  The four bytes of a word, least significant first; read back as a little-endian word they
  give the word again (\<open>le32_le_bytes\<close> below).
\<close>

definition le_bytes :: "u32 \<Rightarrow> u8 list" where
  "le_bytes v = [ucast v, ucast (drop_bit 8 v), ucast (drop_bit 16 v), ucast (drop_bit 24 v)]"

text \<open>Ten double rounds, the feed-forward, the serialisation.\<close>

definition block_core_spec :: "u32 list \<Rightarrow> u8 list" where
  "block_core_spec input =
     concat (map le_bytes (map2 (+) ((double_round_spec ^^ 10) input) input))"

text \<open>The test vector of RFC 8439, section 2.4.2.\<close>

definition rfc_key :: "u8 list" where
  "rfc_key =
    [0x00, 0x01, 0x02, 0x03, 0x04, 0x05, 0x06, 0x07, 0x08, 0x09, 0x0a, 0x0b, 0x0c, 0x0d, 0x0e, 0x0f,
     0x10, 0x11, 0x12, 0x13, 0x14, 0x15, 0x16, 0x17, 0x18, 0x19, 0x1a, 0x1b, 0x1c, 0x1d, 0x1e, 0x1f]"

definition rfc_nonce :: "u8 list" where
  "rfc_nonce = [0x00, 0x00, 0x00, 0x00, 0x00, 0x00, 0x00, 0x4a, 0x00, 0x00, 0x00, 0x00]"

definition rfc_plaintext :: "u8 list" where
  "rfc_plaintext = map of_char
     ''Ladies and Gentlemen of the class of '99: If I could offer you only one tip for the future, sunscreen would be it.''"

definition rfc_ciphertext :: "u8 list" where
  "rfc_ciphertext =
    [0x6e, 0x2e, 0x35, 0x9a, 0x25, 0x68, 0xf9, 0x80, 0x41, 0xba, 0x07, 0x28, 0xdd, 0x0d, 0x69, 0x81,
     0xe9, 0x7e, 0x7a, 0xec, 0x1d, 0x43, 0x60, 0xc2, 0x0a, 0x27, 0xaf, 0xcc, 0xfd, 0x9f, 0xae, 0x0b,
     0xf9, 0x1b, 0x65, 0xc5, 0x52, 0x47, 0x33, 0xab, 0x8f, 0x59, 0x3d, 0xab, 0xcd, 0x62, 0xb3, 0x57,
     0x16, 0x39, 0xd6, 0x24, 0xe6, 0x51, 0x52, 0xab, 0x8f, 0x53, 0x0c, 0x35, 0x9f, 0x08, 0x61, 0xd8,
     0x07, 0xca, 0x0d, 0xbf, 0x50, 0x0d, 0x6a, 0x61, 0x56, 0xa3, 0x8e, 0x08, 0x8a, 0x22, 0xb6, 0x5e,
     0x52, 0xbc, 0x51, 0x4d, 0x16, 0xcc, 0xf8, 0x06, 0x81, 0x8c, 0xe9, 0x1a, 0xb7, 0x79, 0x37, 0x36,
     0x5a, 0xf9, 0x0b, 0xbf, 0x74, 0xa3, 0x5b, 0xe6, 0xb4, 0x0b, 0x8e, 0xed, 0xf2, 0x78, 0x5e, 0x42,
     0x87, 0x4d]"

section \<open>Auxiliary definitions\<close>

text \<open>The sixteen locals as a list, and an array of sixteen as the locals.\<close>

fun list16 :: "'a locals16 \<Rightarrow> 'a list" where
  "list16 (x0, x1, x2, x3, x4, x5, x6, x7, x8, x9, x10, x11, x12, x13, x14, x15) =
     [x0, x1, x2, x3, x4, x5, x6, x7, x8, x9, x10, x11, x12, x13, x14, x15]"

definition tuple16 :: "'a list \<Rightarrow> 'a locals16" where
  "tuple16 xs = (xs ! 0, xs ! 1, xs ! 2, xs ! 3, xs ! 4, xs ! 5, xs ! 6, xs ! 7,
                 xs ! 8, xs ! 9, xs ! 10, xs ! 11, xs ! 12, xs ! 13, xs ! 14, xs ! 15)"

fun map16 :: "('a \<Rightarrow> 'b) \<Rightarrow> 'a locals16 \<Rightarrow> 'b locals16" where
  "map16 f (x0, x1, x2, x3, x4, x5, x6, x7, x8, x9, x10, x11, x12, x13, x14, x15) =
     (f x0, f x1, f x2, f x3, f x4, f x5, f x6, f x7,
      f x8, f x9, f x10, f x11, f x12, f x13, f x14, f x15)"

abbreviation lane :: "nat \<Rightarrow> uint32x4_t \<Rightarrow> u32" where
  "lane i v \<equiv> vgetq_lane_u32 v i"

text \<open>The first \<open>n\<close> stores of the block function, on the words \<open>ws\<close>.\<close>

definition store_words :: "nat \<Rightarrow> u32 list \<Rightarrow> u8 list \<Rightarrow> u8 list" where
  "store_words n ws out = fold (\<lambda>w out. store32_le out (4 * w) (ws ! w)) [0..<n] out"

text \<open>The sixteen words the block function serialises.\<close>

definition block_words :: "u32 list \<Rightarrow> u32 list" where
  "block_words input =
     map2 (+) (list16 ((block_rounds_body ^^ 10) (tuple16 input))) (list16 (tuple16 input))"

text \<open>The first \<open>n\<close> turns of the gather loop of the NEON path.\<close>

definition gather :: "uint32x4_t list \<Rightarrow> nat \<Rightarrow> u8 list list \<Rightarrow> u8 list list" where
  "gather xs n ks =
     for_loop 0 n
       (\<lambda>w ks.
          let ks = ks[0 := store32_le_simd (ks ! 0) (4 * w) (vgetq_lane_u32 (xs ! w) 0)];
              ks = ks[1 := store32_le_simd (ks ! 1) (4 * w) (vgetq_lane_u32 (xs ! w) 1)];
              ks = ks[2 := store32_le_simd (ks ! 2) (4 * w) (vgetq_lane_u32 (xs ! w) 2)];
              ks = ks[3 := store32_le_simd (ks ! 3) (4 * w) (vgetq_lane_u32 (xs ! w) 3)]
          in ks)
       ks"

text \<open>
  The keystream block of a counter value, and byte \<open>j\<close> of the keystream that starts at
  \<open>counter\<close>.
\<close>

definition ks_block :: "u8 list \<Rightarrow> u8 list \<Rightarrow> u32 \<Rightarrow> u8 list" where
  "ks_block key nonce c = concat (map le_bytes (block_words (chacha20_xor_state key nonce c)))"

definition keystream :: "u8 list \<Rightarrow> u8 list \<Rightarrow> u32 \<Rightarrow> nat \<Rightarrow> u8" where
  "keystream key nonce counter j = ks_block key nonce (counter + of_nat (j div 64)) ! (j mod 64)"

text \<open>
  \<open>out'\<close> is \<open>out\<close> with the \<open>len\<close> bytes from \<open>off\<close> on replaced by the input XOR the
  keystream that starts at counter \<open>c\<close>.
\<close>

definition xor_spec ::
  "u8 list \<Rightarrow> u8 list \<Rightarrow> u32 \<Rightarrow> u8 list \<Rightarrow> nat \<Rightarrow> nat \<Rightarrow> u8 list \<Rightarrow> u8 list \<Rightarrow> bool" where
  "xor_spec key nonce c inp off len out out' \<longleftrightarrow>
     length out' = length out \<and>
     (\<forall>j < length out. out' ! j =
        (if off \<le> j \<and> j < off + len then inp ! j XOR keystream key nonce c (j - off)
         else out ! j))"

text \<open>Words and bytes given by a natural number, for evaluating the block function.\<close>

definition W :: "nat \<Rightarrow> u32" where
  "W n = of_nat n"

definition B :: "nat \<Rightarrow> u8" where
  "B n = of_nat n"

section \<open>Lemmas\<close>

subsection \<open>Counted loops, and the two copies of the helpers\<close>

lemma for_loop_step: "i < n \<Longrightarrow> for_loop i n body s = for_loop (Suc i) n body (body i s)"
  by (subst for_loop.simps) simp

lemma for_loop_stop: "\<not> i < n \<Longrightarrow> for_loop i n body s = s"
  by (subst for_loop.simps) simp

lemma for_loop_fold: "for_loop i n body s = fold body [i..<n] s"
proof (induction i n body s rule: for_loop.induct)
  case (1 i n body s)
  show ?case
  proof (cases "i < n")
    case True
    then show ?thesis
      using 1 by (simp add: for_loop_step upt_conv_Cons)
  next
    case False
    then show ?thesis by (simp add: for_loop_stop)
  qed
qed

lemma for_loop_upto: "for_loop 0 (Suc n) body s = body n (for_loop 0 n body s)"
  by (simp add: for_loop_fold)

lemma for_loop_zero: "for_loop 0 0 body s = s"
  by (simp add: for_loop_stop)

lemma for_loop_funpow: "for_loop 0 n (\<lambda>i. f) s = (f ^^ n) s"
  by (induction n) (simp_all add: for_loop_zero for_loop_upto)

lemma ROTL32_simd_eq: "ROTL32_simd = ROTL32"
  by (simp add: fun_eq_iff ROTL32_simd_def ROTL32_def)

lemma load32_le_simd_eq: "load32_le_simd = load32_le"
  by (simp add: fun_eq_iff load32_le_simd_def load32_le_def)

lemma store32_le_simd_eq: "store32_le_simd = store32_le"
  by (simp add: fun_eq_iff store32_le_simd_def store32_le_def)

lemma QUARTERROUND_simd_eq: "QUARTERROUND_simd = QUARTERROUND"
  by (simp add: QUARTERROUND_simd_def QUARTERROUND_def ROTL32_simd_eq)

lemma block_rounds_body_simd_eq: "block_rounds_body_simd = block_rounds_body"
  by (simp add: block_rounds_body_simd_def block_rounds_body_def QUARTERROUND_simd_eq)

lemma chacha20_block_simd_eq: "chacha20_block_simd = chacha20_block"
  unfolding fun_eq_iff chacha20_block_simd_def chacha20_block_def
    block_rounds_body_simd_eq store32_le_simd_eq by (rule allI | rule refl)+

lemma length_store32_le [simp]: "length (store32_le p off v) = length p"
  by (simp add: store32_le_def)

lemma store32_le_append:
  assumes "length a = off" and "4 \<le> length r"
  shows "store32_le (a @ r) off v = a @ le_bytes v @ drop 4 r"
proof -
  from assms(2) obtain r0 r1 r2 r3 r' where r: "r = r0 # r1 # r2 # r3 # r'"
    by (cases r; simp; cases "tl r"; simp; cases "tl (tl r)"; simp; cases "tl (tl (tl r))"; simp)
  show ?thesis
    using assms(1) by (simp add: r store32_le_def le_bytes_def list_update_append)
qed

lemma store_words_eq:
  "n \<le> length ws \<Longrightarrow> 4 * n \<le> length out \<Longrightarrow>
   store_words n ws out = concat (map le_bytes (take n ws)) @ drop (4 * n) out"
proof (induction n)
  case 0
  then show ?case by (simp add: store_words_def)
next
  case (Suc n)
  let ?a = "concat (map le_bytes (take n ws))"
  have la: "length ?a = 4 * n"
    using Suc.prems by (induction n arbitrary: ws) (auto simp: le_bytes_def take_Suc_conv_app_nth)
  have "store_words (Suc n) ws out = store32_le (store_words n ws out) (4 * n) (ws ! n)"
    by (simp add: store_words_def)
  also have "\<dots> = store32_le (?a @ drop (4 * n) out) (4 * n) (ws ! n)"
    using Suc by simp
  also have "\<dots> = ?a @ le_bytes (ws ! n) @ drop 4 (drop (4 * n) out)"
    using Suc.prems la by (intro store32_le_append) auto
  finally show ?case
    using Suc.prems by (simp add: take_Suc_conv_app_nth add.commute)
qed

subsection \<open>The block function writes the sixteen words\<close>

lemma upt16: "[0..<16] = [0,1,2,3,4,5,6,7,8,9,10,11,12,13,14,15]"
  by (simp add: upt_rec)

lemma length16_explicit:
  assumes "length xs = 16"
  shows "xs = [xs ! 0, xs ! 1, xs ! 2, xs ! 3, xs ! 4, xs ! 5, xs ! 6, xs ! 7,
               xs ! 8, xs ! 9, xs ! 10, xs ! 11, xs ! 12, xs ! 13, xs ! 14, xs ! 15]"
proof -
  have "xs = map ((!) xs) [0..<16]"
    using assms map_nth [of xs] by simp
  then show ?thesis
    unfolding upt16 by simp
qed

lemma list16_tuple16: "length xs = 16 \<Longrightarrow> list16 (tuple16 xs) = xs"
  using length16_explicit [of xs] by (simp add: tuple16_def)

lemma length_list16 [simp]: "length (list16 x) = 16"
  by (cases x rule: list16.cases) simp

lemma chacha20_block_store_words:
  "chacha20_block out input = store_words 16 (block_words input) out"
proof -
  obtain x0 x1 x2 x3 x4 x5 x6 x7 x8 x9 x10 x11 x12 x13 x14 x15 where
    x: "(block_rounds_body ^^ 10) (tuple16 input) = (x0, x1, x2, x3, x4, x5, x6, x7, x8, x9, x10, x11, x12, x13, x14, x15)"
    by (cases "(block_rounds_body ^^ 10) (tuple16 input)" rule: list16.cases) blast
  have t: "for_loop 0 10 (\<lambda>i. block_rounds_body) (tuple16 input) = (x0, x1, x2, x3, x4, x5, x6, x7, x8, x9, x10, x11, x12, x13, x14, x15)"
    by (simp only: for_loop_funpow x)
  show ?thesis
    unfolding chacha20_block_def tuple16_def [symmetric] Let_def t
    unfolding block_words_def store_words_def upt16 x 
    by (simp add: tuple16_def)
qed

lemma chacha20_block_bytes:
  "length out = 64 \<Longrightarrow> chacha20_block out input = concat (map le_bytes (block_words input))"
  by (simp add: chacha20_block_store_words store_words_eq block_words_def)

subsection \<open>Rotation and little-endian words\<close>

lemma ROTL32_rotl: "0 < r \<Longrightarrow> r < 32 \<Longrightarrow> ROTL32 x r = rotl x r"
  unfolding ROTL32_def rotl_def
proof (rule bit_word_eqI)
  fix n :: nat
  assume r: "0 < r" "r < 32" and n: "n < LENGTH(32)"
  have m: "(n + 32 - r) mod 32 = (if r \<le> n then n - r else 32 + n - r)"
    using r n by (auto simp: mod_if)
  show "bit (push_bit r x OR drop_bit (32 - r) x) n = bit (word_rotl r x) n"
    using r n by (auto simp: bit_simps m dest: bit_imp_le_length)
qed

lemma load32_le_le32:
  "load32_le p off = le32 (p ! off) (p ! (off + 1)) (p ! (off + 2)) (p ! (off + 3))"
proof -
  define a :: u32 where "a = ucast (p ! off)"
  define b :: u32 where "b = push_bit 8 (ucast (p ! (off + 1)))"
  define c :: u32 where "c = push_bit 16 (ucast (p ! (off + 2)))"
  define d :: u32 where "d = push_bit 24 (ucast (p ! (off + 3)))"
  have cd: "c + d = c OR d"
    by (rule disjunctive_add_eq_or, rule bit_word_eqI)
       (auto simp: c_def d_def bit_simps dest: bit_imp_le_length)
  have bcd: "b + (c OR d) = b OR c OR d"
    by (rule disjunctive_add_eq_or, rule bit_word_eqI)
       (auto simp: b_def c_def d_def bit_simps dest: bit_imp_le_length)
  have abcd: "a + (b OR c OR d) = a OR b OR c OR d"
    by (rule disjunctive_add_eq_or, rule bit_word_eqI)
       (auto simp: a_def b_def c_def d_def bit_simps dest: bit_imp_le_length)
  have "load32_le p off = a OR b OR c OR d"
    by (simp add: load32_le_def a_def b_def c_def d_def)
  also have "\<dots> = a + (b + (c + d))"
    by (simp only: cd bcd abcd)
  also have "\<dots> = le32 (p ! off) (p ! (off + 1)) (p ! (off + 2)) (p ! (off + 3))"
    by (simp add: le32_def a_def b_def c_def d_def push_bit_eq_mult)
  finally show ?thesis .
qed

subsection \<open>The initial state\<close>

lemma chacha20_init_state_explicit:
  "length state = 16 \<Longrightarrow>
   chacha20_init_state state key nonce counter =
     [0x61707865, 0x3320646e, 0x79622d32, 0x6b206574,
      load32_le key 0, load32_le key 4, load32_le key 8, load32_le key 12,
      load32_le key 16, load32_le key 20, load32_le key 24, load32_le key 28,
      counter, load32_le nonce 0, load32_le nonce 4, load32_le nonce 8]"
proof -
  assume "length state = 16"
  then obtain s0 s1 s2 s3 s4 s5 s6 s7 s8 s9 s10 s11 s12 s13 s14 s15 where
    s: "state = [s0, s1, s2, s3, s4, s5, s6, s7, s8, s9, s10, s11, s12, s13, s14, s15]"
    using length16_explicit [of state] by blast
  show ?thesis
    unfolding chacha20_init_state_def s
    by (simp add: load32_le_simd_eq for_loop_step for_loop_stop)
qed

lemma chacha20_xor_state_explicit:
  "chacha20_xor_state key nonce counter =
     [0x61707865, 0x3320646e, 0x79622d32, 0x6b206574,
      load32_le key 0, load32_le key 4, load32_le key 8, load32_le key 12,
      load32_le key 16, load32_le key 20, load32_le key 24, load32_le key 28,
      counter, load32_le nonce 0, load32_le nonce 4, load32_le nonce 8]"
proof -
  have c: "load32_le (map of_char ''expa'') 0 = 0x61707865"
    "load32_le (map of_char ''nd 3'') 0 = 0x3320646e"
    "load32_le (map of_char ''2-by'') 0 = 0x79622d32"
    "load32_le (map of_char ''te k'') 0 = 0x6b206574"
    by (simp_all add: load32_le_def)
  have u: "uninit_words 16 = [0,0,0,0,0,0,0,0,0,0,0,0,0,0,0,0]"
    by (simp add: uninit_words_def eval_nat_numeral)
  show ?thesis
    unfolding chacha20_xor_state_def c u
    by (simp add: for_loop_step for_loop_stop)
qed

lemma chacha20_xor_state_init:
  "length state = 16 \<Longrightarrow> chacha20_xor_state key nonce counter = chacha20_init_state state key nonce counter"
  by (simp add: chacha20_init_state_explicit chacha20_xor_state_explicit)

lemma chacha20_xor_state_incr:
  "(chacha20_xor_state key nonce counter)[12 := chacha20_xor_state key nonce counter ! 12 + 1]
     = chacha20_xor_state key nonce (counter + 1)"
  by (simp add: chacha20_xor_state_explicit)

subsection \<open>Lanes of the NEON operations\<close>

lemma lane_vdupq [simp]: "lane i (vdupq_n_u32 x) = x"
  by simp

lemma lane_vaddq [simp]: "lane i (vaddq_u32 a b) = lane i a + lane i b"
  by (cases a; cases b) simp

lemma lane_veorq [simp]: "lane i (veorq_u32 a b) = lane i a XOR lane i b"
  by (cases a; cases b) simp

lemma lane_vorrq [simp]: "lane i (vorrq_u32 a b) = lane i a OR lane i b"
  by (cases a; cases b) simp

lemma lane_vshlq [simp]: "lane i (vshlq_n_u32 a n) = push_bit n (lane i a)"
  by (cases a) simp

lemma lane_vshrq [simp]: "lane i (vshrq_n_u32 a n) = drop_bit n (lane i a)"
  by (cases a) simp

lemma lane_ROTL:
  "lane i (ROTL16 v) = ROTL32 (lane i v) 16"
  "lane i (ROTL12 v) = ROTL32 (lane i v) 12"
  "lane i (ROTL8 v) = ROTL32 (lane i v) 8"
  "lane i (ROTL7 v) = ROTL32 (lane i v) 7"
  by (simp_all add: ROTL16_def ROTL12_def ROTL8_def ROTL7_def ROTL32_def)

lemma lane_NEON_QR:
  "map_prod (lane i) (map_prod (lane i) (map_prod (lane i) (lane i))) (NEON_QR (a, b, c, d)) =
   QUARTERROUND (lane i a, lane i b, lane i c, lane i d)"
  by (simp add: NEON_QR_def QUARTERROUND_def Let_def lane_ROTL del: vgetq_lane_u32.simps)

lemma lane_NEON_QR_proj:
  "lane i (fst (NEON_QR (a, b, c, d))) = fst (QUARTERROUND (lane i a, lane i b, lane i c, lane i d))"
  "lane i (fst (snd (NEON_QR (a, b, c, d)))) = fst (snd (QUARTERROUND (lane i a, lane i b, lane i c, lane i d)))"
  "lane i (fst (snd (snd (NEON_QR (a, b, c, d))))) = fst (snd (snd (QUARTERROUND (lane i a, lane i b, lane i c, lane i d))))"
  "lane i (snd (snd (snd (NEON_QR (a, b, c, d))))) = snd (snd (snd (QUARTERROUND (lane i a, lane i b, lane i c, lane i d))))"
  unfolding lane_NEON_QR [symmetric] by (simp_all add: map_prod_def split_beta)

lemma lane_neon_rounds_body:
  "map16 (lane i) (neon_rounds_body X) = block_rounds_body (map16 (lane i) X)"
  by (cases X rule: list16.cases)
     (simp add: neon_rounds_body_def block_rounds_body_def Let_def split_beta lane_NEON_QR_proj
        del: vgetq_lane_u32.simps)

lemma lane_neon_rounds:
  "map16 (lane i) ((neon_rounds_body ^^ n) X) = (block_rounds_body ^^ n) (map16 (lane i) X)"
  by (induction n) (simp_all add: lane_neon_rounds_body)

subsection \<open>The keystream blocks of the NEON path\<close>

lemma lane_counter:
  "i < 4 \<Longrightarrow> lane i (Vec4 c (c + 1) (c + 2) (c + 3)) = c + of_nat i"
proof -
  assume "i < 4"
  then consider "i = 0" | "i = 1" | "i = 2" | "i = 3" by linarith
  then show ?thesis by cases simp_all
qed

lemma lane_same: "lane i (Vec4 x x x x) = x"
  by simp

lemma tuple16_explicit:
  "tuple16 [x0, x1, x2, x3, x4, x5, x6, x7, x8, x9, x10, x11, x12, x13, x14, x15] =
     (x0, x1, x2, x3, x4, x5, x6, x7, x8, x9, x10, x11, x12, x13, x14, x15)"
  by (simp add: tuple16_def)

lemma list16_map16: "list16 (map16 f x) = map f (list16 x)"
  by (cases x rule: list16.cases) simp

lemma lane_neon4_lane_vectors:
  assumes "i < 4"
  shows "map (lane i) (neon4_lane_vectors key nonce counter) =
         block_words (chacha20_xor_state key nonce (counter + of_nat i))"
proof -
  define IN where "IN = (vdupq_n_u32 0x61707865, vdupq_n_u32 0x3320646e,
     vdupq_n_u32 0x79622d32, vdupq_n_u32 0x6b206574,
     vdupq_n_u32 (load32_le key 0), vdupq_n_u32 (load32_le key 4),
     vdupq_n_u32 (load32_le key 8), vdupq_n_u32 (load32_le key 12),
     vdupq_n_u32 (load32_le key 16), vdupq_n_u32 (load32_le key 20),
     vdupq_n_u32 (load32_le key 24), vdupq_n_u32 (load32_le key 28),
     Vec4 counter (counter + 1) (counter + 2) (counter + 3),
     vdupq_n_u32 (load32_le nonce 0), vdupq_n_u32 (load32_le nonce 4),
     vdupq_n_u32 (load32_le nonce 8))"
  define X where "X = (neon_rounds_body ^^ 10) IN"
  have v: "neon4_lane_vectors key nonce counter = map2 vaddq_u32 (list16 X) (list16 IN)"
  proof -
    obtain x0 x1 x2 x3 x4 x5 x6 x7 x8 x9 x10 x11 x12 x13 x14 x15 where
      x: "X = (x0, x1, x2, x3, x4, x5, x6, x7, x8, x9, x10, x11, x12, x13, x14, x15)"
      by (cases X rule: list16.cases) blast
    have t: "for_loop 0 10 (\<lambda>i. neon_rounds_body) IN = (x0, x1, x2, x3, x4, x5, x6, x7, x8, x9, x10, x11, x12, x13, x14, x15)"
      by (simp only: for_loop_funpow x [symmetric] X_def)
    show ?thesis
      unfolding neon4_lane_vectors_def load32_le_simd_eq Let_def IN_def [symmetric] t
      unfolding x by (simp add: IN_def)
  qed
  have i: "map16 (lane i) IN = tuple16 (chacha20_xor_state key nonce (counter + of_nat i))"
    unfolding IN_def chacha20_xor_state_explicit tuple16_explicit
    using lane_counter [OF assms] by (simp add: lane_same del: vgetq_lane_u32.simps)
  have "map (lane i) (neon4_lane_vectors key nonce counter) =
        map2 (+) (map (lane i) (list16 X)) (map (lane i) (list16 IN))"
    unfolding v by (rule nth_equalityI) (simp_all del: vgetq_lane_u32.simps)
  also have "\<dots> = map2 (+) (list16 (map16 (lane i) X)) (list16 (map16 (lane i) IN))"
    by (simp only: list16_map16)
  also have "\<dots> = block_words (chacha20_xor_state key nonce (counter + of_nat i))"
    unfolding X_def lane_neon_rounds i block_words_def ..
  finally show ?thesis .
qed

lemma length_neon4_lane_vectors: "length (neon4_lane_vectors key nonce counter) = 16"
  using arg_cong [OF lane_neon4_lane_vectors [of 0 key nonce counter], of length]
  by (simp add: block_words_def)

lemma length_gather [simp]: "length (gather xs n ks) = length ks"
  by (induction n) (simp_all add: gather_def for_loop_zero for_loop_upto Let_def)

lemma gather_nth:
  assumes "length ks = 4" and "i < 4"
  shows "n \<le> length xs \<Longrightarrow> gather xs n ks ! i = store_words n (map (lane i) xs) (ks ! i)"
proof (induction n)
  case 0
  then show ?case by (simp add: gather_def store_words_def for_loop_zero)
next
  case (Suc n)
  have l: "length (gather xs n ks) = 4"
    using assms by simp
  from assms(2) consider "i = 0" | "i = 1" | "i = 2" | "i = 3" by linarith
  then have "gather xs (Suc n) ks ! i = store32_le (gather xs n ks ! i) (4 * n) (lane i (xs ! n))"
    using l by cases
      (simp_all add: gather_def for_loop_upto Let_def store32_le_simd_eq del: vgetq_lane_u32.simps)
  then show ?case
    using Suc by (simp add: store_words_def)
qed

lemma neon4_keystream_nth:
  assumes "length ks = 4" and "i < 4" and "length (ks ! i) = 64"
  shows "neon4_keystream ks key nonce counter ! i =
         concat (map le_bytes (block_words (chacha20_xor_state key nonce (counter + of_nat i))))"
proof -
  have "neon4_keystream ks key nonce counter ! i =
        gather (neon4_lane_vectors key nonce counter) 16 ks ! i"
    by (simp add: neon4_keystream_def gather_def Let_def)
  also have "\<dots> = store_words 16 (map (lane i) (neon4_lane_vectors key nonce counter)) (ks ! i)"
    using assms by (intro gather_nth) (simp_all add: length_neon4_lane_vectors)
  also have "\<dots> = concat (map le_bytes (block_words (chacha20_xor_state key nonce (counter + of_nat i))))"
    using assms by (simp add: lane_neon4_lane_vectors store_words_eq block_words_def)
  finally show ?thesis .
qed

lemma length_neon4_keystream [simp]: "length (neon4_keystream ks key nonce counter) = length ks"
  using length_gather [of "neon4_lane_vectors key nonce counter" 16 ks]
  by (simp add: neon4_keystream_def gather_def Let_def)

subsection \<open>The keystream and the XOR loops\<close>

lemma length_block_words [simp]: "length (block_words input) = 16"
  by (simp add: block_words_def)

lemma length_concat_le_bytes: "length (concat (map le_bytes ws)) = 4 * length ws"
  by (induction ws) (simp_all add: le_bytes_def)

lemma length_ks_block [simp]: "length (ks_block key nonce c) = 64"
  by (simp add: ks_block_def length_concat_le_bytes)

lemma length_chacha20_block [simp]: "length (chacha20_block out input) = length out"
  by (simp add: chacha20_block_store_words store_words_def upt16)

lemma chacha20_block_ks_block:
  "length out = 64 \<Longrightarrow> chacha20_block out (chacha20_xor_state key nonce c) = ks_block key nonce c"
  by (simp add: chacha20_block_bytes ks_block_def)

lemma chacha20_block_simd_ks_block:
  "length out = 64 \<Longrightarrow> length st = 16 \<Longrightarrow>
   chacha20_block_simd out (chacha20_init_state st key nonce c) = ks_block key nonce c"
  by (simp add: chacha20_block_simd_eq chacha20_block_ks_block
      chacha20_xor_state_init [of st, symmetric])

lemma keystream_first: "m < 64 \<Longrightarrow> keystream key nonce c m = ks_block key nonce c ! m"
  by (simp add: keystream_def)

lemma keystream_shift: "keystream key nonce (c + of_nat k) m = keystream key nonce c (m + 64 * k)"
  by (simp add: keystream_def add.assoc add.commute)

lemma keystream_shift1: "keystream key nonce (c + 1) m = keystream key nonce c (m + 64)"
  using keystream_shift [of key nonce c 1 m] by simp

lemma keystream_shift4: "keystream key nonce (c + 4) m = keystream key nonce c (m + 256)"
  using keystream_shift [of key nonce c 4 m] by simp

lemma length_xor_loop [simp]:
  "length (for_loop 0 n (\<lambda>i out. out[off + i := inp ! (off + i) XOR blk ! i]) out) = length out"
  by (induction n) (simp_all add: for_loop_zero for_loop_upto)

lemma nth_xor_loop:
  "j < length out \<Longrightarrow>
   for_loop 0 n (\<lambda>i out. out[off + i := inp ! (off + i) XOR blk ! i]) out ! j =
     (if off \<le> j \<and> j < off + n then inp ! j XOR blk ! (j - off) else out ! j)"
proof (induction n)
  case 0
  then show ?case by (auto simp: for_loop_zero)
next
  case (Suc n)
  show ?case
  proof (cases "j = off + n")
    case True
    then show ?thesis
      using Suc.prems by (simp add: for_loop_upto)
  next
    case False
    then have "(off \<le> j \<and> j < off + Suc n) = (off \<le> j \<and> j < off + n)"
      by auto
    then show ?thesis
      using False Suc by (simp add: for_loop_upto)
  qed
qed

lemma length_xor4_loop [simp]:
  "length (for_loop 0 nb (\<lambda>k. for_loop 0 64
      (\<lambda>i out. out[off + k * 64 + i := inp ! (off + k * 64 + i) XOR bl ! k ! i])) out) = length out"
  by (induction nb) (simp_all add: for_loop_zero for_loop_upto)

lemma nth_xor4_loop:
  "j < length out \<Longrightarrow>
   for_loop 0 nb (\<lambda>k. for_loop 0 64
      (\<lambda>i out. out[off + k * 64 + i := inp ! (off + k * 64 + i) XOR bl ! k ! i])) out ! j =
     (if off \<le> j \<and> j < off + 64 * nb
      then inp ! j XOR bl ! ((j - off) div 64) ! ((j - off) mod 64) else out ! j)"
proof (induction nb)
  case 0
  then show ?case by (auto simp: for_loop_zero)
next
  case (Suc nb)
  have d: "(j - off) div 64 = nb \<and> (j - off) mod 64 = j - (off + nb * 64)"
    if "off + nb * 64 \<le> j" "j < off + nb * 64 + 64"
  proof -
    have "j - off = nb * 64 + (j - (off + nb * 64))" and "j - (off + nb * 64) < 64"
      using that by simp_all
    then show ?thesis
      by (metis div_mult_self3 mod_mult_self3 add.commute add_cancel_left_left div_less mod_less zero_neq_numeral)
  qed
  consider "j < off + nb * 64" | "off + nb * 64 \<le> j" "j < off + nb * 64 + 64" | "off + nb * 64 + 64 \<le> j"
    by linarith
  then show ?case
  proof cases
    case 1
    then show ?thesis
      using Suc by (simp add: for_loop_upto nth_xor_loop)
  next
    case 2
    then show ?thesis
      using Suc.prems d by (simp add: for_loop_upto nth_xor_loop)
  next
    case 3
    then show ?thesis
      using Suc by (simp add: for_loop_upto nth_xor_loop)
  qed
qed

subsection \<open>The scalar path\<close>

lemma xor_spec_zero: "xor_spec key nonce c inp off 0 out out"
  by (auto simp: xor_spec_def)

lemma xor_spec_trans:
  assumes "xor_spec key nonce c inp off n out out1"
    and "xor_spec key nonce (c + of_nat k) inp (off + n) m out1 out2"
    and "n = 64 * k"
  shows "xor_spec key nonce c inp off (n + m) out out2"
  unfolding xor_spec_def
proof (intro conjI allI impI)
  show "length out2 = length out"
    using assms by (simp add: xor_spec_def)
  fix j assume j: "j < length out"
  consider "j < off" | "off \<le> j" "j < off + n" | "off + n \<le> j" "j < off + n + m" | "off + n + m \<le> j"
    by linarith
  then show "out2 ! j = (if off \<le> j \<and> j < off + (n + m) then inp ! j XOR keystream key nonce c (j - off) else out ! j)"
  proof cases
    case 3
    then have "j - (off + n) + 64 * k = j - off"
      using assms(3) by simp
    then show ?thesis
      using 3 j assms(1,2) by (simp add: xor_spec_def keystream_shift)
  qed (use j assms(1,2) in \<open>simp_all add: xor_spec_def\<close>)
qed

lemma xor_spec_block:
  assumes "n \<le> 64"
  shows "xor_spec key nonce c inp off n out
           (for_loop 0 n (\<lambda>i out. out[off + i := inp ! (off + i) XOR ks_block key nonce c ! i]) out)"
  using assms by (auto simp: xor_spec_def nth_xor_loop keystream_first)

lemma chacha20_xor_loop_spec:
  assumes "v_state v = chacha20_xor_state key nonce c" and "length (v_block v) = 64"
  shows "xor_spec key nonce c inp (v_offset v) (v_len v) (v_out v) (v_out (chacha20_xor_loop inp v)) \<and>
         v_state (chacha20_xor_loop inp v) =
           chacha20_xor_state key nonce (c + of_nat ((v_len v + 63) div 64)) \<and>
         v_len (chacha20_xor_loop inp v) = 0 \<and>
         v_offset (chacha20_xor_loop inp v) = v_offset v + v_len v"
  using assms
proof (induction inp v arbitrary: c rule: chacha20_xor_loop.induct)
  case (1 inp v)
  show ?case
  proof (cases "v_len v > 0")
    case False
    then show ?thesis
      using "1.prems" by (subst (1 2 3 4) chacha20_xor_loop.simps) (simp add: xor_spec_zero)
  next
    case True
    define chunk where "chunk = (if v_len v < 64 then v_len v else 64)"
    define out where "out = for_loop 0 chunk
        (\<lambda>i out. out[v_offset v + i := inp ! (v_offset v + i) XOR ks_block key nonce c ! i]) (v_out v)"
    define v' where "v' = \<lparr>v_out = out, v_len = v_len v - chunk, v_offset = v_offset v + chunk,
        v_state = chacha20_xor_state key nonce (c + 1), v_block = ks_block key nonce c\<rparr>"
    have blk: "chacha20_block (v_block v) (v_state v) = ks_block key nonce c"
      using "1.prems" by (simp add: chacha20_block_ks_block)
    have st: "(v_state v)[12 := v_state v ! 12 + 1] = chacha20_xor_state key nonce (c + 1)"
      using "1.prems" by (simp add: chacha20_xor_state_incr)
    have step: "chacha20_xor_loop inp v = chacha20_xor_loop inp v'"
      using True by (subst chacha20_xor_loop.simps)
        (simp add: Let_def blk st v'_def out_def chunk_def)
    have IH: "xor_spec key nonce (c + 1) inp (v_offset v') (v_len v') (v_out v') (v_out (chacha20_xor_loop inp v')) \<and>
         v_state (chacha20_xor_loop inp v') =
           chacha20_xor_state key nonce (c + 1 + of_nat ((v_len v' + 63) div 64)) \<and>
         v_len (chacha20_xor_loop inp v') = 0 \<and>
         v_offset (chacha20_xor_loop inp v') = v_offset v' + v_len v'"
      using "1.IH" [OF True refl refl refl, of "c + 1"]
      unfolding blk st chunk_def [symmetric] out_def [symmetric] v'_def [symmetric]
      by (simp add: v'_def)
    have first: "xor_spec key nonce c inp (v_offset v) chunk (v_out v) out"
      unfolding out_def by (rule xor_spec_block) (simp add: chunk_def)
    show ?thesis
    proof (cases "v_len v < 64")
      case True
      then have "v_len v' = 0" and "chunk = v_len v"
        by (simp_all add: v'_def chunk_def)
      moreover have "chacha20_xor_loop inp v' = v'"
        using \<open>v_len v' = 0\<close> by (subst chacha20_xor_loop.simps) simp
      moreover have "(v_len v + 63) div 64 = 1"
        using True \<open>0 < v_len v\<close> by simp
      ultimately show ?thesis
        using first by (simp add: step v'_def)
    next
      case False
      then have c64: "chunk = 64"
        by (simp add: chunk_def)
      have "xor_spec key nonce c inp (v_offset v) (64 + (v_len v - 64)) (v_out v) (v_out (chacha20_xor_loop inp v'))"
        using first IH by (intro xor_spec_trans [where k = 1 and ?out1.0 = out])
          (simp_all add: c64 v'_def)
      moreover have "(v_len v + 63) div 64 = Suc ((v_len v - 64 + 63) div 64)"
        using False by simp
      ultimately show ?thesis
        using IH False by (simp add: step v'_def c64 add.assoc)
    qed
  qed
qed

lemma chacha20_xor_spec:
  "xor_spec key nonce counter inp 0 len out (chacha20_xor out inp len key nonce counter)"
  using chacha20_xor_loop_spec [of "\<lparr>v_out = out, v_len = len, v_offset = 0,
        v_state = chacha20_xor_state key nonce counter, v_block = uninit_bytes 64\<rparr>" key nonce counter inp]
  by (simp add: chacha20_xor_def chacha20_xor_run_def uninit_bytes_def)

subsection \<open>The interleaved path\<close>

lemma length4_explicit:
  assumes "length xs = 4"
  shows "xs = [xs ! 0, xs ! 1, xs ! 2, xs ! 3]"
proof -
  have "[0..<4] = [0, 1, 2, 3]"
    by (simp add: upt_rec)
  then show ?thesis
    using assms map_nth [of xs] by simp
qed

lemma interleaved4_gen_blocks:
  assumes "length bl = 4" and "\<forall>b \<in> set bl. length b = 64"
  shows "for_loop 0 4
           (\<lambda>k block.
              let st = uninit_words 16;
                  st = chacha20_init_state st key nonce (c + of_nat k)
              in block[k := chacha20_block_simd (block ! k) st]) bl =
         [ks_block key nonce c, ks_block key nonce (c + 1),
          ks_block key nonce (c + 2), ks_block key nonce (c + 3)]"
proof -
  obtain b0 b1 b2 b3 where bl: "bl = [b0, b1, b2, b3]"
    using length4_explicit [OF assms(1)] by blast
  have l: "length b0 = 64" "length b1 = 64" "length b2 = 64" "length b3 = 64"
    using assms(2) by (simp_all add: bl)
  show ?thesis
    unfolding bl
    by (simp add: for_loop_step for_loop_stop Let_def l
        chacha20_block_simd_ks_block uninit_words_def)
qed

lemma xor_spec_superblock:
  assumes "\<forall>k < 4. bl ! k = ks_block key nonce (c + of_nat k)"
  shows "xor_spec key nonce c inp off 256 out
           (for_loop 0 4 (\<lambda>k. for_loop 0 64
              (\<lambda>i out. out[off + k * 64 + i := inp ! (off + k * 64 + i) XOR bl ! k ! i])) out)"
  unfolding xor_spec_def
proof (intro conjI allI impI)
  fix j assume j: "j < length out"
  have "(j - off) div 64 < 4" if "j < off + 256"
    using that by simp
  then show "for_loop 0 4 (\<lambda>k. for_loop 0 64
              (\<lambda>i out. out[off + k * 64 + i := inp ! (off + k * 64 + i) XOR bl ! k ! i])) out ! j =
        (if off \<le> j \<and> j < off + 256 then inp ! j XOR keystream key nonce c (j - off) else out ! j)"
    using j assms by (simp add: nth_xor4_loop keystream_def)
qed simp

lemma interleaved4_main_loop_spec:
  assumes "length (i_block v) = 4" and "\<forall>b \<in> set (i_block v). length b = 64"
  shows "xor_spec key nonce (i_counter v) inp (i_off v) (256 * (i_len v div 256)) (i_out v)
           (i_out (interleaved4_main_loop inp key nonce v)) \<and>
         i_len (interleaved4_main_loop inp key nonce v) = i_len v mod 256 \<and>
         i_off (interleaved4_main_loop inp key nonce v) = i_off v + 256 * (i_len v div 256) \<and>
         i_counter (interleaved4_main_loop inp key nonce v) =
           i_counter v + of_nat (4 * (i_len v div 256))"
  using assms
proof (induction inp key nonce v rule: interleaved4_main_loop.induct)
  case (1 inp key nonce v)
  show ?case
  proof (cases "i_len v \<ge> 256")
    case False
    then show ?thesis
      by (subst (1 2 3 4) interleaved4_main_loop.simps) (simp add: xor_spec_zero)
  next
    case True
    let ?c = "i_counter v"
    define bl where "bl = [ks_block key nonce ?c, ks_block key nonce (?c + 1),
          ks_block key nonce (?c + 2), ks_block key nonce (?c + 3)]"
    define out where "out = for_loop 0 4 (\<lambda>k. for_loop 0 64
              (\<lambda>i out. out[i_off v + k * 64 + i := inp ! (i_off v + k * 64 + i) XOR bl ! k ! i])) (i_out v)"
    define v' where "v' = \<lparr>i_out = out, i_len = i_len v - 256, i_off = i_off v + 256,
              i_counter = ?c + 4, i_block = bl\<rparr>"
    have gen: "for_loop 0 4
           (\<lambda>k block. block[k := chacha20_block_simd (block ! k)
              (chacha20_init_state (uninit_words 16) key nonce (i_counter v + of_nat k))])
           (i_block v) = bl"
      unfolding bl_def using "1.prems" by (rule interleaved4_gen_blocks [unfolded Let_def])
    have step: "interleaved4_main_loop inp key nonce v = interleaved4_main_loop inp key nonce v'"
      using True by (subst interleaved4_main_loop.simps)
        (simp only: gen Let_def v'_def out_def if_True)
    have IH: "xor_spec key nonce (i_counter v') inp (i_off v') (256 * (i_len v' div 256)) (i_out v')
           (i_out (interleaved4_main_loop inp key nonce v')) \<and>
         i_len (interleaved4_main_loop inp key nonce v') = i_len v' mod 256 \<and>
         i_off (interleaved4_main_loop inp key nonce v') = i_off v' + 256 * (i_len v' div 256) \<and>
         i_counter (interleaved4_main_loop inp key nonce v') =
           i_counter v' + of_nat (4 * (i_len v' div 256))"
      using "1.IH" [OF True refl refl]
      unfolding Let_def gen out_def [symmetric] v'_def [symmetric]
      by (simp add: v'_def bl_def)
    have "\<forall>k < 4. bl ! k = ks_block key nonce (?c + of_nat k)"
    proof (intro allI impI)
      fix k :: nat assume "k < 4"
      then consider "k = 0" | "k = 1" | "k = 2" | "k = 3" by linarith
      then show "bl ! k = ks_block key nonce (?c + of_nat k)"
        by cases (simp_all add: bl_def)
    qed
    then have first: "xor_spec key nonce ?c inp (i_off v) 256 (i_out v) out"
      unfolding out_def by (rule xor_spec_superblock)
    have d: "i_len v div 256 = Suc ((i_len v - 256) div 256)"
      and m: "i_len v mod 256 = (i_len v - 256) mod 256"
      using True by (simp_all add: le_div_geq le_mod_geq)
    have "xor_spec key nonce ?c inp (i_off v) (256 + 256 * ((i_len v - 256) div 256)) (i_out v)
            (i_out (interleaved4_main_loop inp key nonce v'))"
      using first IH by (intro xor_spec_trans [where k = 4 and ?out1.0 = out])
        (simp_all add: v'_def)
    then show ?thesis
      using IH by (simp add: step d m v'_def add.assoc)
  qed
qed

lemma interleaved4_tail_loop_spec:
  "xor_spec key nonce (i_counter v) inp (i_off v) (i_len v) (i_out v)
     (i_out (interleaved4_tail_loop inp key nonce v))"
proof (induction inp key nonce v rule: interleaved4_tail_loop.induct)
  case (1 inp key nonce v)
  show ?case
  proof (cases "i_len v > 0")
    case False
    then show ?thesis
      by (subst interleaved4_tail_loop.simps) (simp add: xor_spec_zero)
  next
    case True
    let ?c = "i_counter v"
    define chunk where "chunk = (if i_len v < 64 then i_len v else 64)"
    define out where "out = for_loop 0 chunk
        (\<lambda>i out. out[i_off v + i := inp ! (i_off v + i) XOR ks_block key nonce ?c ! i]) (i_out v)"
    define v' where "v' = \<lparr>i_out = out, i_len = i_len v - chunk, i_off = i_off v + chunk,
              i_counter = ?c + 1, i_block = i_block v\<rparr>"
    have blk: "chacha20_block_simd (uninit_bytes 64)
        (chacha20_init_state (uninit_words 16) key nonce (i_counter v)) = ks_block key nonce ?c"
      by (simp add: chacha20_block_simd_ks_block uninit_bytes_def uninit_words_def)
    have step: "interleaved4_tail_loop inp key nonce v = interleaved4_tail_loop inp key nonce v'"
      using True by (subst interleaved4_tail_loop.simps)
        (simp only: blk Let_def v'_def out_def chunk_def if_True)
    have IH: "xor_spec key nonce (?c + 1) inp (i_off v + chunk) (i_len v - chunk) out
        (i_out (interleaved4_tail_loop inp key nonce v'))"
      using "1.IH" [OF True refl refl refl refl refl]
      unfolding blk chunk_def [symmetric] out_def [symmetric] v'_def [symmetric]
      by (simp add: v'_def)
    have first: "xor_spec key nonce ?c inp (i_off v) chunk (i_out v) out"
      unfolding out_def by (rule xor_spec_block) (simp add: chunk_def)
    show ?thesis
    proof (cases "i_len v < 64")
      case True
      then have "i_len v' = 0" and "chunk = i_len v"
        by (simp_all add: v'_def chunk_def)
      moreover have "interleaved4_tail_loop inp key nonce v' = v'"
        using \<open>i_len v' = 0\<close> by (subst interleaved4_tail_loop.simps) simp
      ultimately show ?thesis
        using first by (simp add: step v'_def)
    next
      case False
      then have c64: "chunk = 64"
        by (simp add: chunk_def)
      have "xor_spec key nonce ?c inp (i_off v) (64 + (i_len v - 64)) (i_out v)
          (i_out (interleaved4_tail_loop inp key nonce v'))"
        using first IH by (intro xor_spec_trans [where k = 1 and ?out1.0 = out])
          (simp_all add: c64)
      then show ?thesis
        using False by (simp add: step)
    qed
  qed
qed

lemma chacha20_xor_interleaved4_spec:
  "xor_spec key nonce counter inp 0 len out
     (chacha20_xor_interleaved4 out inp len key nonce counter)"
proof -
  define v0 where "v0 = \<lparr>i_out = out, i_len = len, i_off = 0, i_counter = counter,
               i_block = replicate 4 (uninit_bytes 64)\<rparr>"
  define v1 where "v1 = interleaved4_main_loop inp key nonce v0"
  have m: "xor_spec key nonce counter inp 0 (256 * (len div 256)) out (i_out v1)"
    "i_len v1 = len mod 256" "i_off v1 = 256 * (len div 256)"
    "i_counter v1 = counter + of_nat (4 * (len div 256))"
    using interleaved4_main_loop_spec [of v0 key nonce inp]
    by (simp_all add: v0_def v1_def uninit_bytes_def)
  have t: "xor_spec key nonce (counter + of_nat (4 * (len div 256))) inp (0 + 256 * (len div 256))
      (len mod 256) (i_out v1) (i_out (interleaved4_tail_loop inp key nonce v1))"
    using interleaved4_tail_loop_spec [of key nonce v1 inp] by (simp add: m)
  have "xor_spec key nonce counter inp 0 (256 * (len div 256) + len mod 256) out
      (i_out (interleaved4_tail_loop inp key nonce v1))"
    using m(1) t by (rule xor_spec_trans) simp
  then show ?thesis
    by (simp add: chacha20_xor_interleaved4_def Let_def v0_def v1_def)
qed

subsection \<open>The NEON path and its tail\<close>

lemma xor_spec_drop:
  assumes "off \<le> length out1" and "off \<le> length inp"
    and "xor_spec key nonce c (drop off inp) 0 m (drop off out1) r"
  shows "xor_spec key nonce c inp off m out1 (take off out1 @ r)"
  unfolding xor_spec_def
proof (intro conjI allI impI)
  show "length (take off out1 @ r) = length out1"
    using assms by (simp add: xor_spec_def)
  fix j assume j: "j < length out1"
  show "(take off out1 @ r) ! j =
        (if off \<le> j \<and> j < off + m then inp ! j XOR keystream key nonce c (j - off) else out1 ! j)"
  proof (cases "j < off")
    case True
    then show ?thesis
      using assms(1) by (simp add: nth_append)
  next
    case False
    then have "j - off < length (drop off out1)"
      using j by simp
    then have "r ! (j - off) = (if j - off < m
        then drop off inp ! (j - off) XOR keystream key nonce c (j - off)
        else drop off out1 ! (j - off))"
      using assms(3) by (simp add: xor_spec_def)
    moreover have "j - off < m \<longleftrightarrow> j < off + m"
      using False by auto
    ultimately show ?thesis
      using False assms(1,2) by (simp add: nth_append)
  qed
qed

lemma neon4_keystream_blocks:
  assumes "length ks = 4" and "\<forall>b \<in> set ks. length b = 64"
  shows "\<forall>k < 4. neon4_keystream ks key nonce c ! k = ks_block key nonce (c + of_nat k)"
  using assms by (simp add: neon4_keystream_nth ks_block_def)

lemma neon4_keystream_lengths:
  assumes "length ks = 4" and "\<forall>b \<in> set ks. length b = 64"
  shows "\<forall>b \<in> set (neon4_keystream ks key nonce c). length b = 64"
proof
  fix b assume "b \<in> set (neon4_keystream ks key nonce c)"
  then obtain k where "k < 4" and "b = neon4_keystream ks key nonce c ! k"
    using assms(1) by (auto simp: in_set_conv_nth)
  then show "length b = 64"
    using neon4_keystream_blocks [OF assms] by simp
qed

lemma neon4_loop_spec:
  assumes "length (n_ks v) = 4" and "\<forall>b \<in> set (n_ks v). length b = 64"
  shows "xor_spec key nonce (n_counter v) inp (n_off v) (256 * (n_len v div 256)) (n_out v)
           (n_out (neon4_loop inp key nonce v)) \<and>
         n_len (neon4_loop inp key nonce v) = n_len v mod 256 \<and>
         n_off (neon4_loop inp key nonce v) = n_off v + 256 * (n_len v div 256) \<and>
         n_counter (neon4_loop inp key nonce v) =
           n_counter v + of_nat (4 * (n_len v div 256))"
  using assms
proof (induction inp key nonce v rule: neon4_loop.induct)
  case (1 inp key nonce v)
  show ?case
  proof (cases "n_len v \<ge> 256")
    case False
    then show ?thesis
      by (subst (1 2 3 4) neon4_loop.simps) (simp add: xor_spec_zero)
  next
    case True
    let ?c = "n_counter v"
    define ks where "ks = neon4_keystream (n_ks v) key nonce ?c"
    define out where "out = for_loop 0 4 (\<lambda>k. for_loop 0 64
              (\<lambda>i out. out[n_off v + k * 64 + i := inp ! (n_off v + k * 64 + i) XOR ks ! k ! i])) (n_out v)"
    define v' where "v' = \<lparr>n_out = out, n_len = n_len v - 256, n_off = n_off v + 256,
              n_counter = ?c + 4, n_ks = ks\<rparr>"
    have step: "neon4_loop inp key nonce v = neon4_loop inp key nonce v'"
      using True by (subst neon4_loop.simps)
        (simp only: Let_def v'_def out_def ks_def if_True)
    have ks: "length ks = 4" "\<forall>b \<in> set ks. length b = 64"
      "\<forall>k < 4. ks ! k = ks_block key nonce (?c + of_nat k)"
      unfolding ks_def
      using "1.prems" neon4_keystream_lengths [OF "1.prems"] neon4_keystream_blocks [OF "1.prems"]
      by simp_all
    have IH: "xor_spec key nonce (n_counter v') inp (n_off v') (256 * (n_len v' div 256)) (n_out v')
           (n_out (neon4_loop inp key nonce v')) \<and>
         n_len (neon4_loop inp key nonce v') = n_len v' mod 256 \<and>
         n_off (neon4_loop inp key nonce v') = n_off v' + 256 * (n_len v' div 256) \<and>
         n_counter (neon4_loop inp key nonce v') =
           n_counter v' + of_nat (4 * (n_len v' div 256))"
      using "1.IH" [OF True refl refl]
      unfolding ks_def [symmetric] out_def [symmetric] v'_def [symmetric]
      using ks by (simp add: v'_def)
    have first: "xor_spec key nonce ?c inp (n_off v) 256 (n_out v) out"
      unfolding out_def using ks(3) by (rule xor_spec_superblock)
    have d: "n_len v div 256 = Suc ((n_len v - 256) div 256)"
      and m: "n_len v mod 256 = (n_len v - 256) mod 256"
      using True by (simp_all add: le_div_geq le_mod_geq)
    have "xor_spec key nonce ?c inp (n_off v) (256 + 256 * ((n_len v - 256) div 256)) (n_out v)
            (n_out (neon4_loop inp key nonce v'))"
      using first IH by (intro xor_spec_trans [where k = 4 and ?out1.0 = out])
        (simp_all add: v'_def)
    then show ?thesis
      using IH by (simp add: step d m v'_def add.assoc)
  qed
qed

lemma chacha20_xor_neon4_spec:
  assumes "len \<le> length out" and "len \<le> length inp"
  shows "xor_spec key nonce counter inp 0 len out
           (chacha20_xor_neon4 out inp len key nonce counter)"
proof -
  define v0 where "v0 = \<lparr>n_out = out, n_len = len, n_off = 0, n_counter = counter,
               n_ks = replicate 4 (uninit_bytes 64)\<rparr>"
  define v1 where "v1 = neon4_loop inp key nonce v0"
  let ?n = "256 * (len div 256)"
  let ?c = "counter + of_nat (4 * (len div 256))"
  have m: "xor_spec key nonce counter inp 0 ?n out (n_out v1)"
    "n_len v1 = len mod 256" "n_off v1 = ?n" "n_counter v1 = ?c"
    using neon4_loop_spec [of v0 key nonce inp]
    by (simp_all add: v0_def v1_def uninit_bytes_def)
  have n: "?n \<le> length (n_out v1)" "?n \<le> length inp"
    using assms m(1) by (simp_all add: xor_spec_def)
  have res: "chacha20_xor_neon4 out inp len key nonce counter =
      (if len mod 256 > 0 then
         take ?n (n_out v1) @
         chacha20_xor_interleaved4 (drop ?n (n_out v1)) (drop ?n inp) (len mod 256) key nonce ?c
       else n_out v1)"
    by (simp add: chacha20_xor_neon4_def Let_def v0_def [symmetric] v1_def [symmetric] m)
  have t: "xor_spec key nonce ?c inp (0 + ?n) (len mod 256) (n_out v1)
      (chacha20_xor_neon4 out inp len key nonce counter)"
  proof (cases "len mod 256 > 0")
    case True
    then show ?thesis
      unfolding res using n
      by (simp add: xor_spec_drop chacha20_xor_interleaved4_spec)
  next
    case False
    then show ?thesis
      unfolding res by (simp add: xor_spec_zero)
  qed
  have "xor_spec key nonce counter inp 0 (?n + len mod 256) out
      (chacha20_xor_neon4 out inp len key nonce counter)"
    using m(1) t by (rule xor_spec_trans) simp
  then show ?thesis
    by simp
qed

subsection \<open>The code against the specification\<close>

lemma quarter_round_spec_eq: "quarter_round_spec = QUARTERROUND"
  by (simp add: quarter_round_spec_def QUARTERROUND_def ROTL32_rotl)

lemma double_round_spec_list16:
  "double_round_spec (list16 x) = list16 (block_rounds_body x)"
  by (cases x rule: list16.cases)
     (simp add: double_round_spec_def columns_def diagonals_def quarter_round_at_def
        quarter_round_spec_eq block_rounds_body_def split_beta Let_def)

lemma double_rounds_spec_list16:
  "(double_round_spec ^^ n) (list16 x) = list16 ((block_rounds_body ^^ n) x)"
  by (induction n) (simp_all add: double_round_spec_list16)

lemma block_core_spec_block_words:
  "length input = 16 \<Longrightarrow> block_core_spec input = concat (map le_bytes (block_words input))"
  using double_rounds_spec_list16 [of 10 "tuple16 input"]
  by (simp add: block_core_spec_def block_words_def list16_tuple16)

lemma le_words_spec_key:
  "length key = 32 \<Longrightarrow> le_words_spec key =
     [load32_le key 0, load32_le key 4, load32_le key 8, load32_le key 12,
      load32_le key 16, load32_le key 20, load32_le key 24, load32_le key 28]"
  by (simp add: le_words_spec_def load32_le_le32 upt_rec)

lemma le_words_spec_nonce:
  "length nonce = 12 \<Longrightarrow> le_words_spec nonce =
     [load32_le nonce 0, load32_le nonce 4, load32_le nonce 8]"
  by (simp add: le_words_spec_def load32_le_le32 upt_rec)

lemma le_words_spec_constants:
  "le_words_spec (map of_char ''expand 32-byte k'') =
     [0x61707865, 0x3320646e, 0x79622d32, 0x6b206574]"
  by (simp add: le_words_spec_def le32_def upt_rec)

lemma state_spec_explicit:
  "length key = 32 \<Longrightarrow> length nonce = 12 \<Longrightarrow>
   state_spec key nonce counter = chacha20_xor_state key nonce counter"
  by (simp add: state_spec_def le_words_spec_key le_words_spec_nonce chacha20_xor_state_explicit)

lemma load32_le_le_bytes: "load32_le (le_bytes w) 0 = w"
proof (rule bit_word_eqI)
  fix n :: nat
  assume n: "n < LENGTH(32)"
  consider "n < 8" | "8 \<le> n" "n < 16" | "16 \<le> n" "n < 24" | "24 \<le> n"
    by linarith
  then show "bit (load32_le (le_bytes w) 0) n = bit w n"
    unfolding load32_le_def le_bytes_def
    using n by cases (auto simp: bit_simps)
qed

lemma le32_le_bytes:
  "le32 (le_bytes w ! 0) (le_bytes w ! 1) (le_bytes w ! 2) (le_bytes w ! 3) = w"
proof -
  have "le32 (le_bytes w ! 0) (le_bytes w ! (0 + 1)) (le_bytes w ! (0 + 2)) (le_bytes w ! (0 + 3)) = w"
    unfolding load32_le_le32 [symmetric] by (rule load32_le_le_bytes)
  then show ?thesis
    by (simp only: add_0)
qed

subsection \<open>What the four entry points compute\<close>

lemma chacha20_xor_best_spec:
  assumes "len \<le> length out" and "len \<le> length inp"
  shows "xor_spec key nonce counter inp 0 len out
           (chacha20_xor_best hn out inp len key nonce counter)"
  using assms
  by (simp add: chacha20_xor_best_def chacha20_xor_neon4_spec chacha20_xor_interleaved4_spec)

lemma xor_spec_unique:
  assumes "xor_spec key nonce c inp off len out r1" and "xor_spec key nonce c inp off len out r2"
  shows "r1 = r2"
  using assms by (intro nth_equalityI) (simp_all add: xor_spec_def)

lemma xor_spec_nth:
  assumes "xor_spec key nonce c inp 0 len out r" and "j < len" and "len \<le> length out"
  shows "r ! j = inp ! j XOR keystream key nonce c j"
  using assms by (simp add: xor_spec_def)

lemma xor_spec_rest:
  assumes "xor_spec key nonce c inp 0 len out r" and "len \<le> j" and "j < length out"
  shows "r ! j = out ! j"
  using assms by (simp add: xor_spec_def)

lemma xor_spec_length:
  assumes "xor_spec key nonce c inp off len out r"
  shows "length r = length out"
  using assms by (simp add: xor_spec_def)

lemma xor_spec_involution:
  assumes "xor_spec key nonce c p 0 len out1 r1" and "xor_spec key nonce c r1 0 len out2 r2"
    and "len \<le> length p" and "len \<le> length out1" and "len \<le> length out2"
  shows "take len r2 = take len p"
proof (rule nth_equalityI)
  show "length (take len r2) = length (take len p)"
    using assms by (simp add: xor_spec_def)
  fix j assume "j < length (take len r2)"
  then have j: "j < len"
    by simp
  have "r2 ! j = r1 ! j XOR keystream key nonce c j"
    using assms(2) j assms(5) by (rule xor_spec_nth)
  also have "r1 ! j = p ! j XOR keystream key nonce c j"
    using assms(1) j assms(4) by (rule xor_spec_nth)
  finally show "take len r2 ! j = take len p ! j"
    using j by (simp add: xor.assoc)
qed

lemma keystream_block:
  assumes "length buf = 64" and "i < 64"
  shows "keystream key nonce c (64 * r + i) =
         chacha20_block buf (chacha20_xor_state key nonce (c + of_nat r)) ! i"
  using assms by (simp add: keystream_def chacha20_block_ks_block)

subsection \<open>Evaluating the block function on numerals\<close>

text \<open>
  The simplifier does not reduce word numerals modulo \<open>2\<^sup>3\<^sup>2\<close>, so the block function is
  evaluated on words \<open>W n\<close> with \<open>n < 2\<^sup>3\<^sup>2\<close>, by arithmetic on natural numbers.
\<close>

lemma W_add:
  assumes "a < 4294967296" and "b < 4294967296"
  shows "W a + W b = W (if a + b < 4294967296 then a + b else a + b - 4294967296)"
proof -
  have "take_bit 32 (a + b) = take_bit 32 (a + b - 4294967296)" if "\<not> a + b < 4294967296"
  proof -
    have "(a + b - 4294967296 + 1 * 4294967296) mod 4294967296 = (a + b - 4294967296) mod 4294967296"
      by (rule mod_mult_self1)
    then show ?thesis
      using that by (simp add: take_bit_eq_mod)
  qed
  then show ?thesis
    unfolding W_def of_nat_add [symmetric] by (simp add: word_of_nat_eq_iff)
qed

lemma W_xor: "W a XOR W b = W (a XOR b)"
  by (simp add: W_def of_nat_xor_eq)

lemma rot_disjoint:
  fixes x :: u32
  assumes "0 < r" "r < 32"
  shows "push_bit r x OR drop_bit (32 - r) x = push_bit r x + drop_bit (32 - r) x"
  by (rule disjunctive_add_eq_or [symmetric], rule bit_word_eqI)
     (use assms in \<open>auto simp: bit_simps dest: bit_imp_le_length\<close>)

lemma unat_W: "a < 4294967296 \<Longrightarrow> unat (W a) = a"
  by (simp add: W_def unat_of_nat)

lemma W_unat: "W (unat w) = w"
  by (simp add: W_def)

lemma W_drop_bit:
  assumes "a < 4294967296"
  shows "drop_bit k (W a) = W (drop_bit k a)"
proof -
  have "unat (drop_bit k (W a)) = drop_bit k a"
    using assms by (simp add: unat_drop_bit_eq unat_W)
  then show ?thesis
    using W_unat [of "drop_bit k (W a)"] by simp
qed

lemma W_rotl:
  assumes "0 < r" "r < 32" "a < 4294967296"
  shows "ROTL32 (W a) r =
         W (a * 2 ^ r - drop_bit (32 - r) a * 4294967296 + drop_bit (32 - r) a)"
proof -
  let ?h = "drop_bit (32 - r) a"
  have "(2::nat) ^ 32 = 2 ^ (32 - r) * 2 ^ r"
    using assms(2) by (simp flip: power_add)
  then have p: "(4294967296::nat) = 2 ^ (32 - r) * 2 ^ r"
    by simp
  have "?h * 2 ^ (32 - r) \<le> a"
    by (simp add: drop_bit_eq_div)
  then have "?h * 2 ^ (32 - r) * 2 ^ r \<le> a * 2 ^ r"
    by (rule mult_le_mono1)
  then have le: "?h * 4294967296 \<le> a * 2 ^ r"
    by (simp add: p mult.assoc)
  have "W (a * 2 ^ r) = W (a * 2 ^ r - ?h * 4294967296 + ?h * 4294967296)"
    using le by simp
  also have "\<dots> = W (a * 2 ^ r - ?h * 4294967296)"
    unfolding W_def word_of_nat_eq_iff take_bit_eq_mod by simp
  finally have push: "push_bit r (W a) = W (a * 2 ^ r - ?h * 4294967296)"
    by (simp add: W_def push_bit_eq_mult)
  have "ROTL32 (W a) r = push_bit r (W a) + drop_bit (32 - r) (W a)"
    by (simp only: ROTL32_def rot_disjoint [OF assms(1,2)])
  also have "\<dots> = W (a * 2 ^ r - ?h * 4294967296) + W ?h"
    by (simp only: push W_drop_bit [OF assms(3)])
  also have "\<dots> = W (a * 2 ^ r - ?h * 4294967296 + ?h)"
    by (simp only: W_def of_nat_add)
  finally show ?thesis .
qed

lemmas W_rot = W_rotl [of 16, simplified] W_rotl [of 12, simplified]
  W_rotl [of 8, simplified] W_rotl [of 7, simplified]

lemma le_bytes_W:
  "le_bytes (W a) = [B a, B (drop_bit 8 a), B (drop_bit 16 a), B (drop_bit 24 a)]"
proof -
  have "(ucast (drop_bit k (W a)) :: u8) = B (drop_bit k a)" if "k \<le> 24" for k
    unfolding W_def B_def
    by (rule bit_word_eqI) (use that in \<open>auto simp: bit_simps\<close>)
  from this [of 0] this [of 8] this [of 16] this [of 24] show ?thesis
    by (simp add: le_bytes_def)
qed

lemma W_numeral: "(numeral n :: u32) = W (numeral n)" "(0 :: u32) = W 0" "(1 :: u32) = W 1"
  by (simp_all add: W_def)

lemma QUARTERROUND_app:
  "QUARTERROUND (a, b, c, d) =
    (let a = a + b;
         d = d XOR a;
         d = ROTL32 d 16;
         c = c + d;
         b = b XOR c;
         b = ROTL32 b 12;
         a = a + b;
         d = d XOR a;
         d = ROTL32 d 8;
         c = c + d;
         b = b XOR c;
         b = ROTL32 b 7
     in (a, b, c, d))"
  by (simp only: QUARTERROUND_def prod.case)

lemma block_rounds_body_app:
  "block_rounds_body (x0, x1, x2, x3, x4, x5, x6, x7, x8, x9, x10, x11, x12, x13, x14, x15) =
    (let (x0, x4, x8, x12) = QUARTERROUND (x0, x4, x8, x12);
         (x1, x5, x9, x13) = QUARTERROUND (x1, x5, x9, x13);
         (x2, x6, x10, x14) = QUARTERROUND (x2, x6, x10, x14);
         (x3, x7, x11, x15) = QUARTERROUND (x3, x7, x11, x15);
         (x0, x5, x10, x15) = QUARTERROUND (x0, x5, x10, x15);
         (x1, x6, x11, x12) = QUARTERROUND (x1, x6, x11, x12);
         (x2, x7, x8, x13) = QUARTERROUND (x2, x7, x8, x13);
         (x3, x4, x9, x14) = QUARTERROUND (x3, x4, x9, x14)
     in (x0, x1, x2, x3, x4, x5, x6, x7, x8, x9, x10, x11, x12, x13, x14, x15))"
  by (simp only: block_rounds_body_def prod.case)

lemma funpow10: "(f ^^ 10) x = f (f (f (f (f (f (f (f (f (f x)))))))))"
  by (simp add: eval_nat_numeral funpow_swap1)

lemma rfc_state:
  "chacha20_xor_state rfc_key rfc_nonce c =
    [0x61707865, 0x3320646e, 0x79622d32, 0x6b206574,
     0x03020100, 0x07060504, 0x0b0a0908, 0x0f0e0d0c,
     0x13121110, 0x17161514, 0x1b1a1918, 0x1f1e1d1c,
     c, 0x00000000, 0x4a000000, 0x00000000]"
  by (simp add: chacha20_xor_state_explicit rfc_key_def rfc_nonce_def load32_le_def)

lemma rfc_rounds1:
  "(block_rounds_body ^^ 10) (tuple16 (chacha20_xor_state rfc_key rfc_nonce 1)) =
    (W 2447431357, W 2931341010, W 4123373821, W 2180841028,
     W 2132611724, W 3674220345, W 3787474550, W 1774315154,
     W 2415405690, W 2062830430, W 2992267421, W 359993041,
     W 1085951096, W 3442753222, W 36446698, W 3074522608)"
  unfolding rfc_state tuple16_explicit funpow10 W_numeral
  by (simp add: W_add W_xor W_rot QUARTERROUND_app block_rounds_body_app Let_def
      cong: let_weak_cong prod.case_cong_weak)

lemma rfc_rounds2:
  "(block_rounds_body ^^ 10) (tuple16 (chacha20_xor_state rfc_key rfc_nonce 2)) =
    (W 1040461316, W 233766609, W 2946276592, W 329508984,
     W 1781715750, W 1820767340, W 800841963, W 910884792,
     W 3344726569, W 1914072582, W 2999996073, W 207618164,
     W 57959409, W 2702844019, W 2663185288, W 3989082425)"
  unfolding rfc_state tuple16_explicit funpow10 W_numeral
  by (simp add: W_add W_xor W_rot QUARTERROUND_app block_rounds_body_app Let_def
      cong: let_weak_cong prod.case_cong_weak)

lemma rfc_ks1:
  "ks_block rfc_key rfc_nonce 1 =
    [0x22, 0x4f, 0x51, 0xf3, 0x40, 0x1b, 0xd9, 0xe1, 0x2f, 0xde, 0x27, 0x6f, 0xb8, 0x63, 0x1d, 0xed,
     0x8c, 0x13, 0x1f, 0x82, 0x3d, 0x2c, 0x06, 0xe2, 0x7e, 0x4f, 0xca, 0xec, 0x9e, 0xf3, 0xcf, 0x78,
     0x8a, 0x3b, 0x0a, 0xa3, 0x72, 0x60, 0x0a, 0x92, 0xb5, 0x79, 0x74, 0xcd, 0xed, 0x2b, 0x93, 0x34,
     0x79, 0x4c, 0xba, 0x40, 0xc6, 0x3e, 0x34, 0xcd, 0xea, 0x21, 0x2c, 0x4c, 0xf0, 0x7d, 0x41, 0xb7]"
  unfolding ks_block_def block_words_def rfc_rounds1
  unfolding rfc_state tuple16_explicit W_numeral
  by (simp add: W_add le_bytes_W B_def)

lemma rfc_ks2:
  "ks_block rfc_key rfc_nonce 2 =
    [0x69, 0xa6, 0x74, 0x9f, 0x3f, 0x63, 0x0f, 0x41, 0x22, 0xca, 0xfe, 0x28, 0xec, 0x4d, 0xc4, 0x7e,
     0x26, 0xd4, 0x34, 0x6d, 0x70, 0xb9, 0x8c, 0x73, 0xf3, 0xe9, 0xc5, 0x3a, 0xc4, 0x0c, 0x59, 0x45,
     0x39, 0x8b, 0x6e, 0xda, 0x1a, 0x83, 0x2c, 0x89, 0xc1, 0x67, 0xea, 0xcd, 0x90, 0x1d, 0x7e, 0x2b,
     0xf3, 0x63, 0x74, 0x03, 0x73, 0x20, 0x1a, 0xa1, 0x88, 0xfb, 0xbc, 0xe8, 0x39, 0x91, 0xc4, 0xed]"
  unfolding ks_block_def block_words_def rfc_rounds2
  unfolding rfc_state tuple16_explicit W_numeral
  by (simp add: W_add le_bytes_W B_def)

lemma rfc_xor_keystream:
  "map (\<lambda>j. rfc_plaintext ! j XOR keystream rfc_key rfc_nonce 1 j) [0..<114] = rfc_ciphertext"
  by (simp add: upt_rec keystream_def rfc_ks1 rfc_ks2 rfc_plaintext_def rfc_ciphertext_def)

section \<open>The claims\<close>

text \<open>
  C1.  Cross-path equivalence: for every 32-byte key, 12-byte nonce, counter, and input of
  any length \<open>len\<close> (0, 1, 63, 64, 65, 255, 256, 257 and 1024 among them), the scalar
  path, the interleaved path and the NEON path leave the same bytes in the output buffer.
\<close>

theorem cross_path_equivalence:
  assumes "len \<le> length out" and "len \<le> length inp"
    and "length key = 32" and "length nonce = 12"
  shows "chacha20_xor_interleaved4 out inp len key nonce counter =
           chacha20_xor out inp len key nonce counter \<and>
         chacha20_xor_neon4 out inp len key nonce counter =
           chacha20_xor out inp len key nonce counter"
  using xor_spec_unique [OF chacha20_xor_interleaved4_spec chacha20_xor_spec]
    xor_spec_unique [OF chacha20_xor_neon4_spec [OF assms(1,2)] chacha20_xor_spec]
  by simp

theorem cross_path_equivalence_witness:
  "(1::nat) \<le> length [0::u8] \<and> (1::nat) \<le> length [7::u8] \<and>
   length (replicate 32 (1::u8)) = 32 \<and> length (replicate 12 (2::u8)) = 12 \<and>
   chacha20_xor_interleaved4 [0] [7] 1 (replicate 32 1) (replicate 12 2) 5 =
     chacha20_xor [0] [7] 1 (replicate 32 1) (replicate 12 2) 5 \<and>
   chacha20_xor_neon4 [0] [7] 1 (replicate 32 1) (replicate 12 2) 5 =
     chacha20_xor [0] [7] 1 (replicate 32 1) (replicate 12 2) 5"
  using cross_path_equivalence [where len = 1 and out = "[0]" and inp = "[7]"
      and key = "replicate 32 1" and nonce = "replicate 12 2" and counter = 5]
  by simp

text \<open>
  C2.  Block core: for every 16-word input, \<open>chacha20_block\<close> (in both files) runs
  exactly ten double rounds, each the RFC 8439 quarter round (add, xor, rotate left by 16,
  12, 8 and 7, all modulo \<open>2\<^sup>3\<^sup>2\<close>) on the four columns and then on the four diagonals,
  adds the original input words back and writes the sixteen sums little-endian into the
  64-byte output.  The input array is a \<open>const\<close> parameter that the function only reads.
\<close>

theorem block_core_meets_spec:
  assumes "length out = 64" and "length input = 16"
  shows "chacha20_block out input = block_core_spec input \<and>
         chacha20_block_simd out input = block_core_spec input"
  using assms
  by (simp add: chacha20_block_simd_eq chacha20_block_bytes block_core_spec_block_words)

theorem block_core_meets_spec_witness:
  "chacha20_block (replicate 64 0) (replicate 16 0) = block_core_spec (replicate 16 0) \<and>
   chacha20_block_simd (replicate 64 0) (replicate 16 0) = block_core_spec (replicate 16 0)"
  using block_core_meets_spec [of "replicate 64 0" "replicate 16 0"] by simp

text \<open>
  C3.  Lanes of the NEON path: for every key, nonce and counter, the four keystream blocks
  that one 256-byte iteration gathers from the lanes are the outputs of four calls of
  \<open>chacha20_block\<close> on the states initialised with \<open>counter\<close>, \<open>counter + 1\<close>,
  \<open>counter + 2\<close> and \<open>counter + 3\<close> (modulo \<open>2\<^sup>3\<^sup>2\<close>).
\<close>

theorem neon4_lanes_are_block_core:
  assumes "length ks = 4" and "list_all (\<lambda>b. length b = 64) ks"
    and "length key = 32" and "length nonce = 12"
    and "length buf = 64" and "length st = 16"
  shows "neon4_keystream ks key nonce counter =
         [chacha20_block_simd buf (chacha20_init_state st key nonce counter),
          chacha20_block_simd buf (chacha20_init_state st key nonce (counter + 1)),
          chacha20_block_simd buf (chacha20_init_state st key nonce (counter + 2)),
          chacha20_block_simd buf (chacha20_init_state st key nonce (counter + 3))]"
proof -
  have b: "\<forall>b \<in> set ks. length b = 64"
    using assms(2) by (simp add: list_all_iff)
  have "length (neon4_keystream ks key nonce counter) = 4"
    using assms(1) by simp
  then have "neon4_keystream ks key nonce counter =
      [neon4_keystream ks key nonce counter ! 0, neon4_keystream ks key nonce counter ! 1,
       neon4_keystream ks key nonce counter ! 2, neon4_keystream ks key nonce counter ! 3]"
    by (rule length4_explicit)
  also have "\<dots> = [ks_block key nonce counter, ks_block key nonce (counter + 1),
       ks_block key nonce (counter + 2), ks_block key nonce (counter + 3)]"
    using neon4_keystream_blocks [OF assms(1) b, of key nonce counter] by simp
  finally show ?thesis
    using assms(5,6) by (simp add: chacha20_block_simd_ks_block)
qed

theorem neon4_lanes_are_block_core_witness:
  "neon4_keystream (replicate 4 (replicate 64 0)) (replicate 32 1) (replicate 12 2) 0xFFFFFFFE =
     [chacha20_block_simd (replicate 64 0)
        (chacha20_init_state (replicate 16 0) (replicate 32 1) (replicate 12 2) 0xFFFFFFFE),
      chacha20_block_simd (replicate 64 0)
        (chacha20_init_state (replicate 16 0) (replicate 32 1) (replicate 12 2) 0xFFFFFFFF),
      chacha20_block_simd (replicate 64 0)
        (chacha20_init_state (replicate 16 0) (replicate 32 1) (replicate 12 2) 0),
      chacha20_block_simd (replicate 64 0)
        (chacha20_init_state (replicate 16 0) (replicate 32 1) (replicate 12 2) 1)]"
proof -
  have w: "(0xFFFFFFFE :: u32) + 1 = 0xFFFFFFFF" "(0xFFFFFFFE :: u32) + 2 = 0"
    "(0xFFFFFFFE :: u32) + 3 = 1"
    by simp_all
  have "neon4_keystream (replicate 4 (replicate 64 0)) (replicate 32 1) (replicate 12 2)
          0xFFFFFFFE =
     [chacha20_block_simd (replicate 64 0)
        (chacha20_init_state (replicate 16 0) (replicate 32 1) (replicate 12 2) 0xFFFFFFFE),
      chacha20_block_simd (replicate 64 0)
        (chacha20_init_state (replicate 16 0) (replicate 32 1) (replicate 12 2)
           (0xFFFFFFFE + 1)),
      chacha20_block_simd (replicate 64 0)
        (chacha20_init_state (replicate 16 0) (replicate 32 1) (replicate 12 2)
           (0xFFFFFFFE + 2)),
      chacha20_block_simd (replicate 64 0)
        (chacha20_init_state (replicate 16 0) (replicate 32 1) (replicate 12 2)
           (0xFFFFFFFE + 3))]"
    by (rule neon4_lanes_are_block_core) (simp_all add: list_all_iff)
  then show ?thesis
    by (simp only: w)
qed

text \<open>
  C4.  The canonical vector of RFC 8439, section 2.4.2: with the key \<open>00 01 \<dots> 1f\<close>, the
  nonce \<open>00 00 00 00 00 00 00 4a 00 00 00 00\<close>, counter 1 and the 114-byte plaintext
  "Ladies and Gentlemen \<dots>", the public entry point \<open>chacha20_xor_best\<close>, whichever path
  it was compiled to, and the scalar path produce exactly the 114 bytes of ciphertext that
  the RFC publishes.
\<close>

theorem rfc8439_test_vector:
  assumes "length out = 114"
  shows "chacha20_xor_best HAVE_NEON out rfc_plaintext 114 rfc_key rfc_nonce 1 = rfc_ciphertext \<and>
         chacha20_xor out rfc_plaintext 114 rfc_key rfc_nonce 1 = rfc_ciphertext"
proof -
  have len: "length rfc_plaintext = 114"
    by (simp add: rfc_plaintext_def)
  have full: "r = map (\<lambda>j. rfc_plaintext ! j XOR keystream rfc_key rfc_nonce 1 j) [0..<114]"
    if "xor_spec rfc_key rfc_nonce 1 rfc_plaintext 0 114 out r" for r
    by (rule nth_equalityI) (use that assms in \<open>simp_all add: xor_spec_def\<close>)
  have best: "xor_spec rfc_key rfc_nonce 1 rfc_plaintext 0 114 out
      (chacha20_xor_best HAVE_NEON out rfc_plaintext 114 rfc_key rfc_nonce 1)"
    by (rule chacha20_xor_best_spec) (simp_all add: assms len)
  have scalar: "xor_spec rfc_key rfc_nonce 1 rfc_plaintext 0 114 out
      (chacha20_xor out rfc_plaintext 114 rfc_key rfc_nonce 1)"
    by (rule chacha20_xor_spec)
  from full [OF best] full [OF scalar] show ?thesis
    by (simp only: rfc_xor_keystream)
qed

theorem rfc8439_test_vector_witness:
  "chacha20_xor_best True (replicate 114 0) rfc_plaintext 114 rfc_key rfc_nonce 1 =
     rfc_ciphertext \<and>
   chacha20_xor (replicate 114 0) rfc_plaintext 114 rfc_key rfc_nonce 1 = rfc_ciphertext"
  using rfc8439_test_vector [of "replicate 114 0" True] by simp

text \<open>
  C5.  Layout of the initial state: for every 32-byte key, 12-byte nonce and counter, both
  \<open>chacha20_init_state\<close> and the state that \<open>chacha20_xor\<close> builds in place have words
  0 to 3 equal to \<open>0x61707865\<close>, \<open>0x3320646e\<close>, \<open>0x79622d32\<close>, \<open>0x6b206574\<close> (the ASCII
  string "expand 32-byte k" read as four little-endian words), words 4 to 11 the key read
  as eight little-endian words, word 12 the counter, and words 13 to 15 the nonce read as
  three little-endian words.
\<close>

theorem initial_state_layout:
  assumes "length key = 32" and "length nonce = 12" and "length state = 16"
  shows "chacha20_init_state state key nonce counter = state_spec key nonce counter \<and>
         chacha20_xor_state key nonce counter = state_spec key nonce counter \<and>
         le_words_spec (map of_char ''expand 32-byte k'') =
           [0x61707865, 0x3320646e, 0x79622d32, 0x6b206574]"
  using assms
  by (simp only: state_spec_explicit le_words_spec_constants
      chacha20_xor_state_init [of state, symmetric] simp_thms)

theorem initial_state_layout_witness:
  "chacha20_init_state (replicate 16 9) rfc_key rfc_nonce 1 = state_spec rfc_key rfc_nonce 1 \<and>
   chacha20_xor_state rfc_key rfc_nonce 1 = state_spec rfc_key rfc_nonce 1 \<and>
   state_spec rfc_key rfc_nonce 1 =
     [0x61707865, 0x3320646e, 0x79622d32, 0x6b206574,
      0x03020100, 0x07060504, 0x0b0a0908, 0x0f0e0d0c,
      0x13121110, 0x17161514, 0x1b1a1918, 0x1f1e1d1c,
      0x00000001, 0x00000000, 0x4a000000, 0x00000000]"
proof -
  have "length rfc_key = 32" and "length rfc_nonce = 12" and "length (replicate 16 (9::u32)) = 16"
    by (simp_all add: rfc_key_def rfc_nonce_def)
  from initial_state_layout [OF this, of 1]
  show ?thesis
    by (simp add: state_spec_def le_words_spec_def le32_def rfc_key_def rfc_nonce_def upt_rec)
qed

text \<open>
  C6.  Block structure of the scalar path: for every input of length \<open>len\<close> the scalar
  path works through \<open>\<lceil>len / 64\<rceil>\<close> consecutive regions.  In region \<open>r\<close> the keystream
  is \<open>chacha20_block\<close> of the state initialised with \<open>counter + r\<close> (modulo \<open>2\<^sup>3\<^sup>2\<close>), and
  exactly \<open>min 64 remaining\<close> of its bytes are XORed into the output, so that no byte from
  \<open>len\<close> on is written.  The counter advances by one per region, also after a last region
  shorter than 64 bytes.
\<close>

theorem scalar_path_block_structure:
  assumes "len \<le> length out" and "len \<le> length inp"
    and "length key = 32" and "length nonce = 12" and "length buf = 64"
  shows "length (chacha20_xor out inp len key nonce counter) = length out \<and>
         (\<forall>r < (len + 63) div 64. \<forall>i < min 64 (len - 64 * r).
            chacha20_xor out inp len key nonce counter ! (64 * r + i) =
              inp ! (64 * r + i) XOR
              chacha20_block buf (chacha20_xor_state key nonce (counter + of_nat r)) ! i) \<and>
         (\<forall>j. len \<le> j \<and> j < length out \<longrightarrow>
            chacha20_xor out inp len key nonce counter ! j = out ! j) \<and>
         v_state (chacha20_xor_run out inp len key nonce counter) ! 12 =
           counter + of_nat ((len + 63) div 64) \<and>
         v_offset (chacha20_xor_run out inp len key nonce counter) = len \<and>
         v_len (chacha20_xor_run out inp len key nonce counter) = 0"
proof -
  let ?res = "chacha20_xor out inp len key nonce counter"
  have spec: "xor_spec key nonce counter inp 0 len out ?res"
    by (rule chacha20_xor_spec)
  have run: "v_state (chacha20_xor_run out inp len key nonce counter) =
        chacha20_xor_state key nonce (counter + of_nat ((len + 63) div 64))"
      "v_len (chacha20_xor_run out inp len key nonce counter) = 0"
      "v_offset (chacha20_xor_run out inp len key nonce counter) = len"
    using chacha20_xor_loop_spec [of "\<lparr>v_out = out, v_len = len, v_offset = 0,
        v_state = chacha20_xor_state key nonce counter, v_block = uninit_bytes 64\<rparr>"
        key nonce counter inp]
    by (simp_all add: chacha20_xor_run_def uninit_bytes_def)
  have regions: "?res ! (64 * r + i) = inp ! (64 * r + i) XOR
      chacha20_block buf (chacha20_xor_state key nonce (counter + of_nat r)) ! i"
    if "r < (len + 63) div 64" and "i < min 64 (len - 64 * r)" for r i
  proof -
    have "64 * r + i < len" and "i < 64"
      using that by auto
    then show ?thesis
      using xor_spec_nth [OF spec _ assms(1), of "64 * r + i"] assms(5)
      by (simp add: keystream_block)
  qed
  have rest: "?res ! j = out ! j" if "len \<le> j \<and> j < length out" for j
    using xor_spec_rest [OF spec, of j] that by simp
  show ?thesis
    using xor_spec_length [OF spec] regions rest run
    by (simp add: chacha20_xor_state_explicit)
qed

theorem scalar_path_block_structure_witness:
  "length (chacha20_xor [0, 0] [1, 1] 1 rfc_key rfc_nonce 0xFFFFFFFF) = 2 \<and>
   chacha20_xor [0, 0] [1, 1] 1 rfc_key rfc_nonce 0xFFFFFFFF ! 0 =
     1 XOR chacha20_block (replicate 64 0) (chacha20_xor_state rfc_key rfc_nonce 0xFFFFFFFF) ! 0 \<and>
   chacha20_xor [0, 0] [1, 1] 1 rfc_key rfc_nonce 0xFFFFFFFF ! 1 = 0 \<and>
   v_state (chacha20_xor_run [0, 0] [1, 1] 1 rfc_key rfc_nonce 0xFFFFFFFF) ! 12 = 0"
proof -
  have h: "(1::nat) \<le> length [0, 0 :: u8]" "(1::nat) \<le> length [1, 1 :: u8]"
    "length rfc_key = 32" "length rfc_nonce = 12" "length (replicate 64 (0::u8)) = 64"
    by (simp_all add: rfc_key_def rfc_nonce_def)
  note t = scalar_path_block_structure [OF h, of "0xFFFFFFFF"]
  have l: "length (chacha20_xor [0, 0] [1, 1] 1 rfc_key rfc_nonce 0xFFFFFFFF) = length [0, 0 :: u8]"
    by (rule t [THEN conjunct1])
  have a: "chacha20_xor [0, 0] [1, 1] 1 rfc_key rfc_nonce 0xFFFFFFFF ! (64 * 0 + 0) =
      [1, 1] ! (64 * 0 + 0) XOR
      chacha20_block (replicate 64 0)
        (chacha20_xor_state rfc_key rfc_nonce (0xFFFFFFFF + of_nat 0)) ! 0"
    by (rule t [THEN conjunct2, THEN conjunct1, rule_format]) simp_all
  have b: "chacha20_xor [0, 0] [1, 1] 1 rfc_key rfc_nonce 0xFFFFFFFF ! 1 = [0, 0] ! 1"
    by (rule t [THEN conjunct2, THEN conjunct2, THEN conjunct1, rule_format]) simp
  have c: "v_state (chacha20_xor_run [0, 0] [1, 1] 1 rfc_key rfc_nonce 0xFFFFFFFF) ! 12 =
      0xFFFFFFFF + of_nat ((1 + 63) div 64)"
    by (rule t [THEN conjunct2, THEN conjunct2, THEN conjunct2, THEN conjunct1])
  show ?thesis
    using l a b c by simp
qed

text \<open>
  C7.  Self-inverse: for every key, nonce, counter and plaintext \<open>p\<close> of any length \<open>len\<close>,
  transforming \<open>p\<close> and then transforming the result with the same key, nonce and counter
  gives \<open>p\<close> back.  This holds for the public entry point, whichever path it was compiled
  to, and for the scalar path.
\<close>

theorem transform_self_inverse:
  assumes "len \<le> length p" and "len \<le> length out1" and "len \<le> length out2"
    and "length key = 32" and "length nonce = 12"
  shows "take len (chacha20_xor_best HAVE_NEON out2
                     (chacha20_xor_best HAVE_NEON out1 p len key nonce counter)
                     len key nonce counter) = take len p \<and>
         take len (chacha20_xor out2 (chacha20_xor out1 p len key nonce counter)
                     len key nonce counter) = take len p"
proof -
  let ?c1 = "chacha20_xor_best HAVE_NEON out1 p len key nonce counter"
  have 1: "xor_spec key nonce counter p 0 len out1 ?c1"
    using assms(2,1) by (rule chacha20_xor_best_spec)
  then have "len \<le> length ?c1"
    using assms(2) by (simp add: xor_spec_def)
  with assms(3) have 2: "xor_spec key nonce counter ?c1 0 len out2
      (chacha20_xor_best HAVE_NEON out2 ?c1 len key nonce counter)"
    by (rule chacha20_xor_best_spec)
  show ?thesis
    using xor_spec_involution [OF 1 2 assms(1,2,3)]
      xor_spec_involution [OF chacha20_xor_spec chacha20_xor_spec assms(1,2,3)]
    by simp
qed

theorem transform_self_inverse_witness:
  "take 3 (chacha20_xor_best True [0, 0, 0]
             (chacha20_xor_best True [0, 0, 0] [65, 66, 67] 3 rfc_key rfc_nonce 1)
             3 rfc_key rfc_nonce 1) = [65, 66, 67] \<and>
   take 3 (chacha20_xor [0, 0, 0] (chacha20_xor [0, 0, 0] [65, 66, 67] 3 rfc_key rfc_nonce 1)
             3 rfc_key rfc_nonce 1) = [65, 66, 67]"
proof -
  have h: "(3::nat) \<le> length [65, 66, 67 :: u8]" "(3::nat) \<le> length [0, 0, 0 :: u8]"
    "(3::nat) \<le> length [0, 0, 0 :: u8]" "length rfc_key = 32" "length rfc_nonce = 12"
    by (simp_all add: rfc_key_def rfc_nonce_def)
  show ?thesis
    using transform_self_inverse [OF h, of True 1] by simp
qed

text \<open>
  C8.  Counter wraparound: with counter \<open>0xFFFFFFFF\<close> the second 64-byte block is produced
  with the counter wrapped to 0, with no error, and its keystream is that of
  \<open>chacha20_block\<close> on the state initialised with counter 0.  This holds in every path:
  the counter is a 32-bit word and each path advances it modulo \<open>2\<^sup>3\<^sup>2\<close>.
\<close>

theorem counter_wraps_to_zero:
  assumes "len \<le> length out" and "len \<le> length inp"
    and "length key = 32" and "length nonce = 12"
    and "length buf = 64" and "length st = 16"
    and "64 \<le> j" and "j < 128" and "j < len"
  shows "chacha20_xor out inp len key nonce 0xFFFFFFFF ! j =
           inp ! j XOR chacha20_block_simd buf (chacha20_init_state st key nonce 0) ! (j - 64) \<and>
         chacha20_xor_interleaved4 out inp len key nonce 0xFFFFFFFF ! j =
           inp ! j XOR chacha20_block_simd buf (chacha20_init_state st key nonce 0) ! (j - 64) \<and>
         chacha20_xor_neon4 out inp len key nonce 0xFFFFFFFF ! j =
           inp ! j XOR chacha20_block_simd buf (chacha20_init_state st key nonce 0) ! (j - 64) \<and>
         chacha20_xor_best HAVE_NEON out inp len key nonce 0xFFFFFFFF ! j =
           inp ! j XOR chacha20_block_simd buf (chacha20_init_state st key nonce 0) ! (j - 64)"
proof -
  have d: "j div 64 = 1" "j mod 64 = j - 64"
    using assms(7,8) by (simp_all add: div_nat_eqI mod_if)
  have "keystream key nonce 0xFFFFFFFF j = ks_block key nonce (0xFFFFFFFF + 1) ! (j - 64)"
    by (simp add: keystream_def d)
  also have "(0xFFFFFFFF :: u32) + 1 = 0"
    by simp
  finally have k: "keystream key nonce 0xFFFFFFFF j =
      chacha20_block_simd buf (chacha20_init_state st key nonce 0) ! (j - 64)"
    using assms(5,6) by (simp add: chacha20_block_simd_ks_block)
  show ?thesis
    using xor_spec_nth [OF chacha20_xor_spec assms(9,1)]
      xor_spec_nth [OF chacha20_xor_interleaved4_spec assms(9,1)]
      xor_spec_nth [OF chacha20_xor_neon4_spec [OF assms(1,2)] assms(9,1)]
      xor_spec_nth [OF chacha20_xor_best_spec [OF assms(1,2)] assms(9,1)]
    by (simp only: k simp_thms)
qed

theorem counter_wraps_to_zero_witness:
  "chacha20_xor (replicate 128 0) (replicate 128 7) 128 rfc_key rfc_nonce 0xFFFFFFFF ! 64 =
     replicate 128 7 ! 64 XOR
     chacha20_block_simd (replicate 64 0)
       (chacha20_init_state (replicate 16 0) rfc_key rfc_nonce 0) ! 0 \<and>
   chacha20_xor_best True (replicate 128 0) (replicate 128 7) 128 rfc_key rfc_nonce 0xFFFFFFFF ! 64 =
     replicate 128 7 ! 64 XOR
     chacha20_block_simd (replicate 64 0)
       (chacha20_init_state (replicate 16 0) rfc_key rfc_nonce 0) ! 0"
proof -
  have h: "(128::nat) \<le> length (replicate 128 (0::u8))"
    "(128::nat) \<le> length (replicate 128 (7::u8))"
    "length rfc_key = 32" "length rfc_nonce = 12"
    "length (replicate 64 (0::u8)) = 64" "length (replicate 16 (0::u32)) = 16"
    "(64::nat) \<le> 64" "(64::nat) < 128" "(64::nat) < 128"
    by (simp_all add: rfc_key_def rfc_nonce_def)
  have z: "(64::nat) - 64 = 0"
    by simp
  show ?thesis
    using counter_wraps_to_zero [OF h, of True] unfolding z by (simp only: simp_thms)
qed

text \<open>
  C9.  Zero length: for every key, nonce and counter, a call of any of the four entry points
  with length 0 writes no byte; the output buffer, the only thing a call changes, is
  returned as it was.
\<close>

theorem zero_length_is_noop:
  "chacha20_xor out inp 0 key nonce counter = out \<and>
   chacha20_xor_interleaved4 out inp 0 key nonce counter = out \<and>
   chacha20_xor_neon4 out inp 0 key nonce counter = out \<and>
   chacha20_xor_best HAVE_NEON out inp 0 key nonce counter = out"
proof -
  have s: "chacha20_xor out inp 0 key nonce counter = out"
    unfolding chacha20_xor_def chacha20_xor_run_def
    by (subst chacha20_xor_loop.simps) simp
  have i: "chacha20_xor_interleaved4 out inp 0 key nonce counter = out" for out inp
    unfolding chacha20_xor_interleaved4_def Let_def
    by (subst interleaved4_main_loop.simps, simp, subst interleaved4_tail_loop.simps, simp)
  have n: "chacha20_xor_neon4 out inp 0 key nonce counter = out"
    unfolding chacha20_xor_neon4_def Let_def
    by (subst (1 2 3 4 5 6) neon4_loop.simps) simp
  show ?thesis
    by (simp add: s i n chacha20_xor_best_def)
qed

text \<open>
  C10.  The two block functions, the one of \<open>chacha20.c\<close> and the one of
  \<open>chacha20_simd.c\<close>, agree: for every 16-word input they write the same 64 bytes.
\<close>

theorem block_functions_agree:
  assumes "length out = 64" and "length input = 16"
  shows "chacha20_block_simd out input = chacha20_block out input \<and>
         length (chacha20_block out input) = 64"
  using assms by (simp add: chacha20_block_simd_eq)

theorem block_functions_agree_witness:
  "chacha20_block_simd (replicate 64 0) (replicate 16 5) =
     chacha20_block (replicate 64 0) (replicate 16 5) \<and>
   length (chacha20_block (replicate 64 0) (replicate 16 5)) = 64"
  using block_functions_agree [of "replicate 64 0" "replicate 16 5"] by simp

end
